theory Spec2Isabelle
  imports Complex_Main "HOL-Library.AList" "HOL-Library.Code_Target_Nat"
begin

section \<open>Python string primitives used by \<open>app.py\<close>\<close>

text \<open>
  A Python string is the list of its Unicode code points. \<open>str\<close> writes an ASCII literal
  as such a list.
\<close>

type_synonym pystr = "nat list"

definition str :: "string \<Rightarrow> pystr" where
  "str s = map of_char s"

definition is_space :: "nat \<Rightarrow> bool" where
  \<comment> \<open>\<open>str.isspace\<close> on one character, which is also what \<open>\s\<close> matches\<close>
  "is_space c = (c \<in> set [0x09, 0x0A, 0x0B, 0x0C, 0x0D, 0x1C, 0x1D, 0x1E, 0x1F, 0x20, 0x85,
                          0xA0, 0x1680, 0x2000, 0x2001, 0x2002, 0x2003, 0x2004, 0x2005,
                          0x2006, 0x2007, 0x2008, 0x2009, 0x200A, 0x2028, 0x2029, 0x202F,
                          0x205F, 0x3000])"

text \<open>
  The lowercase mapping of the code points beyond ASCII, as CPython 3.11 has it: a row
  \<open>(lo, hi, step, to)\<close> maps the code points \<open>lo\<close>, \<open>lo + step\<close>, ... up to \<open>hi\<close> to
  \<open>to\<close>, \<open>to + step\<close>, ... in turn.
\<close>

definition lower_table :: "(nat \<times> nat \<times> nat \<times> nat) list" where
  "lower_table =
    [(0xC0, 0xD6, 1, 0xE0), (0xD8, 0xDE, 1, 0xF8), (0x100, 0x12E, 2, 0x101),
     (0x130, 0x130, 2, 0x69), (0x132, 0x136, 2, 0x133), (0x139, 0x147, 2, 0x13A),
     (0x14A, 0x176, 2, 0x14B), (0x178, 0x178, 2, 0xFF), (0x179, 0x17D, 2, 0x17A),
     (0x181, 0x181, 2, 0x253), (0x182, 0x184, 2, 0x183), (0x186, 0x186, 2, 0x254),
     (0x187, 0x187, 2, 0x188), (0x189, 0x18A, 1, 0x256), (0x18B, 0x18B, 2, 0x18C),
     (0x18E, 0x18E, 2, 0x1DD), (0x18F, 0x18F, 2, 0x259), (0x190, 0x190, 2, 0x25B),
     (0x191, 0x191, 2, 0x192), (0x193, 0x193, 2, 0x260), (0x194, 0x194, 2, 0x263),
     (0x196, 0x196, 2, 0x269), (0x197, 0x197, 2, 0x268), (0x198, 0x198, 2, 0x199),
     (0x19C, 0x19C, 2, 0x26F), (0x19D, 0x19D, 2, 0x272), (0x19F, 0x19F, 2, 0x275),
     (0x1A0, 0x1A4, 2, 0x1A1), (0x1A6, 0x1A6, 2, 0x280), (0x1A7, 0x1A7, 2, 0x1A8),
     (0x1A9, 0x1A9, 2, 0x283), (0x1AC, 0x1AC, 2, 0x1AD), (0x1AE, 0x1AE, 2, 0x288),
     (0x1AF, 0x1AF, 2, 0x1B0), (0x1B1, 0x1B2, 1, 0x28A), (0x1B3, 0x1B5, 2, 0x1B4),
     (0x1B7, 0x1B7, 2, 0x292), (0x1B8, 0x1B8, 2, 0x1B9), (0x1BC, 0x1BC, 2, 0x1BD),
     (0x1C4, 0x1C4, 2, 0x1C6), (0x1C5, 0x1C5, 2, 0x1C6), (0x1C7, 0x1C7, 2, 0x1C9),
     (0x1C8, 0x1C8, 2, 0x1C9), (0x1CA, 0x1CA, 2, 0x1CC), (0x1CB, 0x1DB, 2, 0x1CC),
     (0x1DE, 0x1EE, 2, 0x1DF), (0x1F1, 0x1F1, 2, 0x1F3), (0x1F2, 0x1F4, 2, 0x1F3),
     (0x1F6, 0x1F6, 2, 0x195), (0x1F7, 0x1F7, 2, 0x1BF), (0x1F8, 0x21E, 2, 0x1F9),
     (0x220, 0x220, 2, 0x19E), (0x222, 0x232, 2, 0x223), (0x23A, 0x23A, 2, 0x2C65),
     (0x23B, 0x23B, 2, 0x23C), (0x23D, 0x23D, 2, 0x19A), (0x23E, 0x23E, 2, 0x2C66),
     (0x241, 0x241, 2, 0x242), (0x243, 0x243, 2, 0x180), (0x244, 0x244, 2, 0x289),
     (0x245, 0x245, 2, 0x28C), (0x246, 0x24E, 2, 0x247), (0x370, 0x372, 2, 0x371),
     (0x376, 0x376, 2, 0x377), (0x37F, 0x37F, 2, 0x3F3), (0x386, 0x386, 2, 0x3AC),
     (0x388, 0x38A, 1, 0x3AD), (0x38C, 0x38C, 2, 0x3CC), (0x38E, 0x38F, 1, 0x3CD),
     (0x391, 0x3A1, 1, 0x3B1), (0x3A3, 0x3AB, 1, 0x3C3), (0x3CF, 0x3CF, 2, 0x3D7),
     (0x3D8, 0x3EE, 2, 0x3D9), (0x3F4, 0x3F4, 2, 0x3B8), (0x3F7, 0x3F7, 2, 0x3F8),
     (0x3F9, 0x3F9, 2, 0x3F2), (0x3FA, 0x3FA, 2, 0x3FB), (0x3FD, 0x3FF, 1, 0x37B),
     (0x400, 0x40F, 1, 0x450), (0x410, 0x42F, 1, 0x430), (0x460, 0x480, 2, 0x461),
     (0x48A, 0x4BE, 2, 0x48B), (0x4C0, 0x4C0, 2, 0x4CF), (0x4C1, 0x4CD, 2, 0x4C2),
     (0x4D0, 0x52E, 2, 0x4D1), (0x531, 0x556, 1, 0x561), (0x10A0, 0x10C5, 1, 0x2D00),
     (0x10C7, 0x10C7, 2, 0x2D27), (0x10CD, 0x10CD, 2, 0x2D2D), (0x13A0, 0x13EF, 1, 0xAB70),
     (0x13F0, 0x13F5, 1, 0x13F8), (0x1C90, 0x1CBA, 1, 0x10D0), (0x1CBD, 0x1CBF, 1, 0x10FD),
     (0x1E00, 0x1E94, 2, 0x1E01), (0x1E9E, 0x1E9E, 2, 0xDF), (0x1EA0, 0x1EFE, 2, 0x1EA1),
     (0x1F08, 0x1F0F, 1, 0x1F00), (0x1F18, 0x1F1D, 1, 0x1F10), (0x1F28, 0x1F2F, 1, 0x1F20),
     (0x1F38, 0x1F3F, 1, 0x1F30), (0x1F48, 0x1F4D, 1, 0x1F40), (0x1F59, 0x1F5F, 2, 0x1F51),
     (0x1F68, 0x1F6F, 1, 0x1F60), (0x1F88, 0x1F8F, 1, 0x1F80), (0x1F98, 0x1F9F, 1, 0x1F90),
     (0x1FA8, 0x1FAF, 1, 0x1FA0), (0x1FB8, 0x1FB9, 1, 0x1FB0), (0x1FBA, 0x1FBB, 1, 0x1F70),
     (0x1FBC, 0x1FBC, 2, 0x1FB3), (0x1FC8, 0x1FCB, 1, 0x1F72), (0x1FCC, 0x1FCC, 2, 0x1FC3),
     (0x1FD8, 0x1FD9, 1, 0x1FD0), (0x1FDA, 0x1FDB, 1, 0x1F76), (0x1FE8, 0x1FE9, 1, 0x1FE0),
     (0x1FEA, 0x1FEB, 1, 0x1F7A), (0x1FEC, 0x1FEC, 2, 0x1FE5), (0x1FF8, 0x1FF9, 1, 0x1F78),
     (0x1FFA, 0x1FFB, 1, 0x1F7C), (0x1FFC, 0x1FFC, 2, 0x1FF3), (0x2126, 0x2126, 2, 0x3C9),
     (0x212A, 0x212A, 2, 0x6B), (0x212B, 0x212B, 2, 0xE5), (0x2132, 0x2132, 2, 0x214E),
     (0x2160, 0x216F, 1, 0x2170), (0x2183, 0x2183, 2, 0x2184), (0x24B6, 0x24CF, 1, 0x24D0),
     (0x2C00, 0x2C2F, 1, 0x2C30), (0x2C60, 0x2C60, 2, 0x2C61), (0x2C62, 0x2C62, 2, 0x26B),
     (0x2C63, 0x2C63, 2, 0x1D7D), (0x2C64, 0x2C64, 2, 0x27D), (0x2C67, 0x2C6B, 2, 0x2C68),
     (0x2C6D, 0x2C6D, 2, 0x251), (0x2C6E, 0x2C6E, 2, 0x271), (0x2C6F, 0x2C6F, 2, 0x250),
     (0x2C70, 0x2C70, 2, 0x252), (0x2C72, 0x2C72, 2, 0x2C73), (0x2C75, 0x2C75, 2, 0x2C76),
     (0x2C7E, 0x2C7F, 1, 0x23F), (0x2C80, 0x2CE2, 2, 0x2C81), (0x2CEB, 0x2CED, 2, 0x2CEC),
     (0x2CF2, 0x2CF2, 2, 0x2CF3), (0xA640, 0xA66C, 2, 0xA641), (0xA680, 0xA69A, 2, 0xA681),
     (0xA722, 0xA72E, 2, 0xA723), (0xA732, 0xA76E, 2, 0xA733), (0xA779, 0xA77B, 2, 0xA77A),
     (0xA77D, 0xA77D, 2, 0x1D79), (0xA77E, 0xA786, 2, 0xA77F), (0xA78B, 0xA78B, 2, 0xA78C),
     (0xA78D, 0xA78D, 2, 0x265), (0xA790, 0xA792, 2, 0xA791), (0xA796, 0xA7A8, 2, 0xA797),
     (0xA7AA, 0xA7AA, 2, 0x266), (0xA7AB, 0xA7AB, 2, 0x25C), (0xA7AC, 0xA7AC, 2, 0x261),
     (0xA7AD, 0xA7AD, 2, 0x26C), (0xA7AE, 0xA7AE, 2, 0x26A), (0xA7B0, 0xA7B0, 2, 0x29E),
     (0xA7B1, 0xA7B1, 2, 0x287), (0xA7B2, 0xA7B2, 2, 0x29D), (0xA7B3, 0xA7B3, 2, 0xAB53),
     (0xA7B4, 0xA7C2, 2, 0xA7B5), (0xA7C4, 0xA7C4, 2, 0xA794), (0xA7C5, 0xA7C5, 2, 0x282),
     (0xA7C6, 0xA7C6, 2, 0x1D8E), (0xA7C7, 0xA7C9, 2, 0xA7C8), (0xA7D0, 0xA7D0, 2, 0xA7D1),
     (0xA7D6, 0xA7D8, 2, 0xA7D7), (0xA7F5, 0xA7F5, 2, 0xA7F6), (0xFF21, 0xFF3A, 1, 0xFF41),
     (0x10400, 0x10427, 1, 0x10428), (0x104B0, 0x104D3, 1, 0x104D8),
     (0x10570, 0x1057A, 1, 0x10597), (0x1057C, 0x1058A, 1, 0x105A3),
     (0x1058C, 0x10592, 1, 0x105B3), (0x10594, 0x10595, 1, 0x105BB),
     (0x10C80, 0x10CB2, 1, 0x10CC0), (0x118A0, 0x118BF, 1, 0x118C0),
     (0x16E40, 0x16E5F, 1, 0x16E60), (0x1E900, 0x1E921, 1, 0x1E922)]"

definition simple_lower :: "nat \<Rightarrow> nat" where
  \<comment> \<open>the one-to-one lowercase mapping of a code point (\<open>Py_UNICODE_TOLOWER\<close>)\<close>
  "simple_lower c =
     (if c < 0x80 then (if 0x41 \<le> c \<and> c \<le> 0x5A then c + 0x20 else c)
      else (case find (\<lambda>(lo, hi, step, to). lo \<le> c \<and> c \<le> hi \<and> (c - lo) mod step = 0)
                   lower_table of
              None \<Rightarrow> c
            | Some (lo, hi, step, to) \<Rightarrow> to + (c - lo)))"

definition lower_char :: "nat \<Rightarrow> pystr" where
  \<comment> \<open>U+0130 is the one code point whose lowercase form has two code points\<close>
  "lower_char c = (if c = 0x130 then [0x69, 0x307] else [simple_lower c])"

text \<open>
  The capital sigma U+03A3 is lowercased by its context (\<open>handle_capital_sigma\<close> in
  CPython's \<open>unicodeobject.c\<close>): it becomes the final sigma U+03C2 when the nearest
  character before it that is not case-ignorable is cased, and the nearest such character
  after it, if there is one, is not cased; otherwise it becomes U+03C3. The two tables
  list, beyond ASCII, the ranges of the case-ignorable code points and the ranges of the
  cased code points among the others (the only ones that are tested for being cased).
\<close>

definition case_ignorable_table :: "(nat \<times> nat) list" where
  "case_ignorable_table =
    [(0xA8, 0xA8), (0xAD, 0xAD), (0xAF, 0xAF), (0xB4, 0xB4), (0xB7, 0xB8), (0x2B0, 0x36F),
     (0x374, 0x375), (0x37A, 0x37A), (0x384, 0x385), (0x387, 0x387), (0x483, 0x489),
     (0x559, 0x559), (0x55F, 0x55F), (0x591, 0x5BD), (0x5BF, 0x5BF), (0x5C1, 0x5C2),
     (0x5C4, 0x5C5), (0x5C7, 0x5C7), (0x5F4, 0x5F4), (0x600, 0x605), (0x610, 0x61A),
     (0x61C, 0x61C), (0x640, 0x640), (0x64B, 0x65F), (0x670, 0x670), (0x6D6, 0x6DD),
     (0x6DF, 0x6E8), (0x6EA, 0x6ED), (0x70F, 0x70F), (0x711, 0x711), (0x730, 0x74A),
     (0x7A6, 0x7B0), (0x7EB, 0x7F5), (0x7FA, 0x7FA), (0x7FD, 0x7FD), (0x816, 0x82D),
     (0x859, 0x85B), (0x888, 0x888), (0x890, 0x891), (0x898, 0x89F), (0x8C9, 0x902),
     (0x93A, 0x93A), (0x93C, 0x93C), (0x941, 0x948), (0x94D, 0x94D), (0x951, 0x957),
     (0x962, 0x963), (0x971, 0x971), (0x981, 0x981), (0x9BC, 0x9BC), (0x9C1, 0x9C4),
     (0x9CD, 0x9CD), (0x9E2, 0x9E3), (0x9FE, 0x9FE), (0xA01, 0xA02), (0xA3C, 0xA3C),
     (0xA41, 0xA42), (0xA47, 0xA48), (0xA4B, 0xA4D), (0xA51, 0xA51), (0xA70, 0xA71),
     (0xA75, 0xA75), (0xA81, 0xA82), (0xABC, 0xABC), (0xAC1, 0xAC5), (0xAC7, 0xAC8),
     (0xACD, 0xACD), (0xAE2, 0xAE3), (0xAFA, 0xAFF), (0xB01, 0xB01), (0xB3C, 0xB3C),
     (0xB3F, 0xB3F), (0xB41, 0xB44), (0xB4D, 0xB4D), (0xB55, 0xB56), (0xB62, 0xB63),
     (0xB82, 0xB82), (0xBC0, 0xBC0), (0xBCD, 0xBCD), (0xC00, 0xC00), (0xC04, 0xC04),
     (0xC3C, 0xC3C), (0xC3E, 0xC40), (0xC46, 0xC48), (0xC4A, 0xC4D), (0xC55, 0xC56),
     (0xC62, 0xC63), (0xC81, 0xC81), (0xCBC, 0xCBC), (0xCBF, 0xCBF), (0xCC6, 0xCC6),
     (0xCCC, 0xCCD), (0xCE2, 0xCE3), (0xD00, 0xD01), (0xD3B, 0xD3C), (0xD41, 0xD44),
     (0xD4D, 0xD4D), (0xD62, 0xD63), (0xD81, 0xD81), (0xDCA, 0xDCA), (0xDD2, 0xDD4),
     (0xDD6, 0xDD6), (0xE31, 0xE31), (0xE34, 0xE3A), (0xE46, 0xE4E), (0xEB1, 0xEB1),
     (0xEB4, 0xEBC), (0xEC6, 0xEC6), (0xEC8, 0xECD), (0xF18, 0xF19), (0xF35, 0xF35),
     (0xF37, 0xF37), (0xF39, 0xF39), (0xF71, 0xF7E), (0xF80, 0xF84), (0xF86, 0xF87),
     (0xF8D, 0xF97), (0xF99, 0xFBC), (0xFC6, 0xFC6), (0x102D, 0x1030), (0x1032, 0x1037),
     (0x1039, 0x103A), (0x103D, 0x103E), (0x1058, 0x1059), (0x105E, 0x1060), (0x1071, 0x1074),
     (0x1082, 0x1082), (0x1085, 0x1086), (0x108D, 0x108D), (0x109D, 0x109D), (0x10FC, 0x10FC),
     (0x135D, 0x135F), (0x1712, 0x1714), (0x1732, 0x1733), (0x1752, 0x1753), (0x1772, 0x1773),
     (0x17B4, 0x17B5), (0x17B7, 0x17BD), (0x17C6, 0x17C6), (0x17C9, 0x17D3), (0x17D7, 0x17D7),
     (0x17DD, 0x17DD), (0x180B, 0x180F), (0x1843, 0x1843), (0x1885, 0x1886), (0x18A9, 0x18A9),
     (0x1920, 0x1922), (0x1927, 0x1928), (0x1932, 0x1932), (0x1939, 0x193B), (0x1A17, 0x1A18),
     (0x1A1B, 0x1A1B), (0x1A56, 0x1A56), (0x1A58, 0x1A5E), (0x1A60, 0x1A60), (0x1A62, 0x1A62),
     (0x1A65, 0x1A6C), (0x1A73, 0x1A7C), (0x1A7F, 0x1A7F), (0x1AA7, 0x1AA7), (0x1AB0, 0x1ACE),
     (0x1B00, 0x1B03), (0x1B34, 0x1B34), (0x1B36, 0x1B3A), (0x1B3C, 0x1B3C), (0x1B42, 0x1B42),
     (0x1B6B, 0x1B73), (0x1B80, 0x1B81), (0x1BA2, 0x1BA5), (0x1BA8, 0x1BA9), (0x1BAB, 0x1BAD),
     (0x1BE6, 0x1BE6), (0x1BE8, 0x1BE9), (0x1BED, 0x1BED), (0x1BEF, 0x1BF1), (0x1C2C, 0x1C33),
     (0x1C36, 0x1C37), (0x1C78, 0x1C7D), (0x1CD0, 0x1CD2), (0x1CD4, 0x1CE0), (0x1CE2, 0x1CE8),
     (0x1CED, 0x1CED), (0x1CF4, 0x1CF4), (0x1CF8, 0x1CF9), (0x1D2C, 0x1D6A), (0x1D78, 0x1D78),
     (0x1D9B, 0x1DFF), (0x1FBD, 0x1FBD), (0x1FBF, 0x1FC1), (0x1FCD, 0x1FCF), (0x1FDD, 0x1FDF),
     (0x1FED, 0x1FEF), (0x1FFD, 0x1FFE), (0x200B, 0x200F), (0x2018, 0x2019), (0x2024, 0x2024),
     (0x2027, 0x2027), (0x202A, 0x202E), (0x2060, 0x2064), (0x2066, 0x206F), (0x2071, 0x2071),
     (0x207F, 0x207F), (0x2090, 0x209C), (0x20D0, 0x20F0), (0x2C7C, 0x2C7D), (0x2CEF, 0x2CF1),
     (0x2D6F, 0x2D6F), (0x2D7F, 0x2D7F), (0x2DE0, 0x2DFF), (0x2E2F, 0x2E2F), (0x3005, 0x3005),
     (0x302A, 0x302D), (0x3031, 0x3035), (0x303B, 0x303B), (0x3099, 0x309E), (0x30FC, 0x30FE),
     (0xA015, 0xA015), (0xA4F8, 0xA4FD), (0xA60C, 0xA60C), (0xA66F, 0xA672), (0xA674, 0xA67D),
     (0xA67F, 0xA67F), (0xA69C, 0xA69F), (0xA6F0, 0xA6F1), (0xA700, 0xA721), (0xA770, 0xA770),
     (0xA788, 0xA78A), (0xA7F2, 0xA7F4), (0xA7F8, 0xA7F9), (0xA802, 0xA802), (0xA806, 0xA806),
     (0xA80B, 0xA80B), (0xA825, 0xA826), (0xA82C, 0xA82C), (0xA8C4, 0xA8C5), (0xA8E0, 0xA8F1),
     (0xA8FF, 0xA8FF), (0xA926, 0xA92D), (0xA947, 0xA951), (0xA980, 0xA982), (0xA9B3, 0xA9B3),
     (0xA9B6, 0xA9B9), (0xA9BC, 0xA9BD), (0xA9CF, 0xA9CF), (0xA9E5, 0xA9E6), (0xAA29, 0xAA2E),
     (0xAA31, 0xAA32), (0xAA35, 0xAA36), (0xAA43, 0xAA43), (0xAA4C, 0xAA4C), (0xAA70, 0xAA70),
     (0xAA7C, 0xAA7C), (0xAAB0, 0xAAB0), (0xAAB2, 0xAAB4), (0xAAB7, 0xAAB8), (0xAABE, 0xAABF),
     (0xAAC1, 0xAAC1), (0xAADD, 0xAADD), (0xAAEC, 0xAAED), (0xAAF3, 0xAAF4), (0xAAF6, 0xAAF6),
     (0xAB5B, 0xAB5F), (0xAB69, 0xAB6B), (0xABE5, 0xABE5), (0xABE8, 0xABE8), (0xABED, 0xABED),
     (0xFB1E, 0xFB1E), (0xFBB2, 0xFBC2), (0xFE00, 0xFE0F), (0xFE13, 0xFE13), (0xFE20, 0xFE2F),
     (0xFE52, 0xFE52), (0xFE55, 0xFE55), (0xFEFF, 0xFEFF), (0xFF07, 0xFF07), (0xFF0E, 0xFF0E),
     (0xFF1A, 0xFF1A), (0xFF3E, 0xFF3E), (0xFF40, 0xFF40), (0xFF70, 0xFF70), (0xFF9E, 0xFF9F),
     (0xFFE3, 0xFFE3), (0xFFF9, 0xFFFB), (0x101FD, 0x101FD), (0x102E0, 0x102E0),
     (0x10376, 0x1037A), (0x10780, 0x10785), (0x10787, 0x107B0), (0x107B2, 0x107BA),
     (0x10A01, 0x10A03), (0x10A05, 0x10A06), (0x10A0C, 0x10A0F), (0x10A38, 0x10A3A),
     (0x10A3F, 0x10A3F), (0x10AE5, 0x10AE6), (0x10D24, 0x10D27), (0x10EAB, 0x10EAC),
     (0x10F46, 0x10F50), (0x10F82, 0x10F85), (0x11001, 0x11001), (0x11038, 0x11046),
     (0x11070, 0x11070), (0x11073, 0x11074), (0x1107F, 0x11081), (0x110B3, 0x110B6),
     (0x110B9, 0x110BA), (0x110BD, 0x110BD), (0x110C2, 0x110C2), (0x110CD, 0x110CD),
     (0x11100, 0x11102), (0x11127, 0x1112B), (0x1112D, 0x11134), (0x11173, 0x11173),
     (0x11180, 0x11181), (0x111B6, 0x111BE), (0x111C9, 0x111CC), (0x111CF, 0x111CF),
     (0x1122F, 0x11231), (0x11234, 0x11234), (0x11236, 0x11237), (0x1123E, 0x1123E),
     (0x112DF, 0x112DF), (0x112E3, 0x112EA), (0x11300, 0x11301), (0x1133B, 0x1133C),
     (0x11340, 0x11340), (0x11366, 0x1136C), (0x11370, 0x11374), (0x11438, 0x1143F),
     (0x11442, 0x11444), (0x11446, 0x11446), (0x1145E, 0x1145E), (0x114B3, 0x114B8),
     (0x114BA, 0x114BA), (0x114BF, 0x114C0), (0x114C2, 0x114C3), (0x115B2, 0x115B5),
     (0x115BC, 0x115BD), (0x115BF, 0x115C0), (0x115DC, 0x115DD), (0x11633, 0x1163A),
     (0x1163D, 0x1163D), (0x1163F, 0x11640), (0x116AB, 0x116AB), (0x116AD, 0x116AD),
     (0x116B0, 0x116B5), (0x116B7, 0x116B7), (0x1171D, 0x1171F), (0x11722, 0x11725),
     (0x11727, 0x1172B), (0x1182F, 0x11837), (0x11839, 0x1183A), (0x1193B, 0x1193C),
     (0x1193E, 0x1193E), (0x11943, 0x11943), (0x119D4, 0x119D7), (0x119DA, 0x119DB),
     (0x119E0, 0x119E0), (0x11A01, 0x11A0A), (0x11A33, 0x11A38), (0x11A3B, 0x11A3E),
     (0x11A47, 0x11A47), (0x11A51, 0x11A56), (0x11A59, 0x11A5B), (0x11A8A, 0x11A96),
     (0x11A98, 0x11A99), (0x11C30, 0x11C36), (0x11C38, 0x11C3D), (0x11C3F, 0x11C3F),
     (0x11C92, 0x11CA7), (0x11CAA, 0x11CB0), (0x11CB2, 0x11CB3), (0x11CB5, 0x11CB6),
     (0x11D31, 0x11D36), (0x11D3A, 0x11D3A), (0x11D3C, 0x11D3D), (0x11D3F, 0x11D45),
     (0x11D47, 0x11D47), (0x11D90, 0x11D91), (0x11D95, 0x11D95), (0x11D97, 0x11D97),
     (0x11EF3, 0x11EF4), (0x13430, 0x13438), (0x16AF0, 0x16AF4), (0x16B30, 0x16B36),
     (0x16B40, 0x16B43), (0x16F4F, 0x16F4F), (0x16F8F, 0x16F9F), (0x16FE0, 0x16FE1),
     (0x16FE3, 0x16FE4), (0x1AFF0, 0x1AFF3), (0x1AFF5, 0x1AFFB), (0x1AFFD, 0x1AFFE),
     (0x1BC9D, 0x1BC9E), (0x1BCA0, 0x1BCA3), (0x1CF00, 0x1CF2D), (0x1CF30, 0x1CF46),
     (0x1D167, 0x1D169), (0x1D173, 0x1D182), (0x1D185, 0x1D18B), (0x1D1AA, 0x1D1AD),
     (0x1D242, 0x1D244), (0x1DA00, 0x1DA36), (0x1DA3B, 0x1DA6C), (0x1DA75, 0x1DA75),
     (0x1DA84, 0x1DA84), (0x1DA9B, 0x1DA9F), (0x1DAA1, 0x1DAAF), (0x1E000, 0x1E006),
     (0x1E008, 0x1E018), (0x1E01B, 0x1E021), (0x1E023, 0x1E024), (0x1E026, 0x1E02A),
     (0x1E130, 0x1E13D), (0x1E2AE, 0x1E2AE), (0x1E2EC, 0x1E2EF), (0x1E8D0, 0x1E8D6),
     (0x1E944, 0x1E94B), (0x1F3FB, 0x1F3FF), (0xE0001, 0xE0001), (0xE0020, 0xE007F),
     (0xE0100, 0xE01EF)]"

definition cased_table :: "(nat \<times> nat) list" where
  "cased_table =
    [(0xAA, 0xAA), (0xB5, 0xB5), (0xBA, 0xBA), (0xC0, 0xD6), (0xD8, 0xF6), (0xF8, 0x1BA),
     (0x1BC, 0x1BF), (0x1C4, 0x293), (0x295, 0x2AF), (0x370, 0x373), (0x376, 0x377),
     (0x37B, 0x37D), (0x37F, 0x37F), (0x386, 0x386), (0x388, 0x38A), (0x38C, 0x38C),
     (0x38E, 0x3A1), (0x3A3, 0x3F5), (0x3F7, 0x481), (0x48A, 0x52F), (0x531, 0x556),
     (0x560, 0x588), (0x10A0, 0x10C5), (0x10C7, 0x10C7), (0x10CD, 0x10CD), (0x10D0, 0x10FA),
     (0x10FD, 0x10FF), (0x13A0, 0x13F5), (0x13F8, 0x13FD), (0x1C80, 0x1C88), (0x1C90, 0x1CBA),
     (0x1CBD, 0x1CBF), (0x1D00, 0x1D2B), (0x1D6B, 0x1D77), (0x1D79, 0x1D9A), (0x1E00, 0x1F15),
     (0x1F18, 0x1F1D), (0x1F20, 0x1F45), (0x1F48, 0x1F4D), (0x1F50, 0x1F57), (0x1F59, 0x1F59),
     (0x1F5B, 0x1F5B), (0x1F5D, 0x1F5D), (0x1F5F, 0x1F7D), (0x1F80, 0x1FB4), (0x1FB6, 0x1FBC),
     (0x1FBE, 0x1FBE), (0x1FC2, 0x1FC4), (0x1FC6, 0x1FCC), (0x1FD0, 0x1FD3), (0x1FD6, 0x1FDB),
     (0x1FE0, 0x1FEC), (0x1FF2, 0x1FF4), (0x1FF6, 0x1FFC), (0x2102, 0x2102), (0x2107, 0x2107),
     (0x210A, 0x2113), (0x2115, 0x2115), (0x2119, 0x211D), (0x2124, 0x2124), (0x2126, 0x2126),
     (0x2128, 0x2128), (0x212A, 0x212D), (0x212F, 0x2134), (0x2139, 0x2139), (0x213C, 0x213F),
     (0x2145, 0x2149), (0x214E, 0x214E), (0x2160, 0x217F), (0x2183, 0x2184), (0x24B6, 0x24E9),
     (0x2C00, 0x2C7B), (0x2C7E, 0x2CE4), (0x2CEB, 0x2CEE), (0x2CF2, 0x2CF3), (0x2D00, 0x2D25),
     (0x2D27, 0x2D27), (0x2D2D, 0x2D2D), (0xA640, 0xA66D), (0xA680, 0xA69B), (0xA722, 0xA76F),
     (0xA771, 0xA787), (0xA78B, 0xA78E), (0xA790, 0xA7CA), (0xA7D0, 0xA7D1), (0xA7D3, 0xA7D3),
     (0xA7D5, 0xA7D9), (0xA7F5, 0xA7F6), (0xA7FA, 0xA7FA), (0xAB30, 0xAB5A), (0xAB60, 0xAB68),
     (0xAB70, 0xABBF), (0xFB00, 0xFB06), (0xFB13, 0xFB17), (0xFF21, 0xFF3A), (0xFF41, 0xFF5A),
     (0x10400, 0x1044F), (0x104B0, 0x104D3), (0x104D8, 0x104FB), (0x10570, 0x1057A),
     (0x1057C, 0x1058A), (0x1058C, 0x10592), (0x10594, 0x10595), (0x10597, 0x105A1),
     (0x105A3, 0x105B1), (0x105B3, 0x105B9), (0x105BB, 0x105BC), (0x10C80, 0x10CB2),
     (0x10CC0, 0x10CF2), (0x118A0, 0x118DF), (0x16E40, 0x16E7F), (0x1D400, 0x1D454),
     (0x1D456, 0x1D49C), (0x1D49E, 0x1D49F), (0x1D4A2, 0x1D4A2), (0x1D4A5, 0x1D4A6),
     (0x1D4A9, 0x1D4AC), (0x1D4AE, 0x1D4B9), (0x1D4BB, 0x1D4BB), (0x1D4BD, 0x1D4C3),
     (0x1D4C5, 0x1D505), (0x1D507, 0x1D50A), (0x1D50D, 0x1D514), (0x1D516, 0x1D51C),
     (0x1D51E, 0x1D539), (0x1D53B, 0x1D53E), (0x1D540, 0x1D544), (0x1D546, 0x1D546),
     (0x1D54A, 0x1D550), (0x1D552, 0x1D6A5), (0x1D6A8, 0x1D6C0), (0x1D6C2, 0x1D6DA),
     (0x1D6DC, 0x1D6FA), (0x1D6FC, 0x1D714), (0x1D716, 0x1D734), (0x1D736, 0x1D74E),
     (0x1D750, 0x1D76E), (0x1D770, 0x1D788), (0x1D78A, 0x1D7A8), (0x1D7AA, 0x1D7C2),
     (0x1D7C4, 0x1D7CB), (0x1DF00, 0x1DF09), (0x1DF0B, 0x1DF1E), (0x1E900, 0x1E943),
     (0x1F130, 0x1F149), (0x1F150, 0x1F169), (0x1F170, 0x1F189)]"

definition in_ranges :: "(nat \<times> nat) list \<Rightarrow> nat \<Rightarrow> bool" where
  "in_ranges table c = list_ex (\<lambda>(lo, hi). lo \<le> c \<and> c \<le> hi) table"

definition case_ignorable :: "nat \<Rightarrow> bool" where
  "case_ignorable c =
     (if c < 0x80 then c \<in> set [0x27, 0x2E, 0x3A, 0x5E, 0x60]
      else in_ranges case_ignorable_table c)"

definition cased :: "nat \<Rightarrow> bool" where
  \<comment> \<open>for a code point that is not case-ignorable\<close>
  "cased c =
     (if c < 0x80 then (0x41 \<le> c \<and> c \<le> 0x5A) \<or> (0x61 \<le> c \<and> c \<le> 0x7A)
      else in_ranges cased_table c)"

fun final_sigma_after :: "pystr \<Rightarrow> bool" where
  \<comment> \<open>the second loop of \<open>handle_capital_sigma\<close>, over the characters after the sigma\<close>
  "final_sigma_after [] = True"
| "final_sigma_after (c # cs) =
     (if case_ignorable c then final_sigma_after cs else \<not> cased c)"

fun lower_from :: "bool \<Rightarrow> pystr \<Rightarrow> pystr" where
  \<comment> \<open>\<open>after_cased\<close>: a character that is not case-ignorable came before, and the last
      such character is cased (the first loop of \<open>handle_capital_sigma\<close>)\<close>
  "lower_from after_cased [] = []"
| "lower_from after_cased (c # cs) =
     (if c = 0x3A3
      then [if after_cased \<and> final_sigma_after cs then 0x3C2 else 0x3C3]
      else lower_char c) @
     lower_from (if case_ignorable c then after_cased else cased c) cs"

definition lower :: "pystr \<Rightarrow> pystr" where
  \<comment> \<open>\<open>s.lower()\<close>\<close>
  "lower s = lower_from False s"

definition strip :: "pystr \<Rightarrow> pystr" where
  \<comment> \<open>\<open>s.strip()\<close>\<close>
  "strip s = rev (dropWhile is_space (rev (dropWhile is_space s)))"

fun str_find :: "pystr \<Rightarrow> pystr \<Rightarrow> nat option" where
  \<comment> \<open>\<open>s.find(sub)\<close>: the first index where \<open>sub\<close> occurs, \<open>None\<close> for Python's \<open>-1\<close>\<close>
  "str_find sub [] = (if sub = [] then Some 0 else None)"
| "str_find sub (c # cs) =
     (if take (length sub) (c # cs) = sub then Some 0
      else map_option Suc (str_find sub cs))"

definition contains :: "pystr \<Rightarrow> pystr \<Rightarrow> bool" where
  \<comment> \<open>\<open>sub in s\<close>\<close>
  "contains sub s = (str_find sub s \<noteq> None)"

fun split_nl :: "pystr \<Rightarrow> pystr list" where
  \<comment> \<open>\<open>s.split('\n')\<close>\<close>
  "split_nl [] = [[]]"
| "split_nl (c # cs) =
     (if c = 0x0A then [] # split_nl cs
      else (case split_nl cs of l # ls \<Rightarrow> (c # l) # ls | [] \<Rightarrow> [[c]]))"

fun join_nl :: "pystr list \<Rightarrow> pystr" where
  \<comment> \<open>\<open>'\n'.join(ls)\<close>\<close>
  "join_nl [] = []"
| "join_nl [l] = l"
| "join_nl (l # ls) = l @ 0x0A # join_nl ls"

section \<open>The two prefix patterns of \<open>clean_response\<close>\<close>

text \<open>
  A pattern is a backtracking matcher: applied to the text at the current position it
  returns the remainders after every way of matching, in the order in which Python's
  \<open>re\<close> tries them. The match that \<open>re\<close> reports is the first one.
\<close>

type_synonym matcher = "pystr \<Rightarrow> pystr list"

definition ci_match :: "nat \<Rightarrow> nat \<Rightarrow> bool" where
  \<comment> \<open>an ASCII character \<open>p\<close> of a pattern against a character \<open>c\<close> of the text under
      \<open>re.IGNORECASE\<close>: equal one-to-one lowercase forms, and the two extra pairs that
      \<open>re\<close> adds for \<open>i\<close> (U+0131) and \<open>s\<close> (U+017F)\<close>
  "ci_match p c \<longleftrightarrow>
     simple_lower c = simple_lower p \<or>
     (simple_lower p = 0x69 \<and> c = 0x131) \<or> (simple_lower p = 0x73 \<and> c = 0x17F)"

definition lit_ci :: "pystr \<Rightarrow> matcher" where
  \<comment> \<open>a literal under \<open>re.IGNORECASE\<close>\<close>
  "lit_ci w s =
     (if length w \<le> length s \<and> list_all2 ci_match w (take (length w) s)
      then [drop (length w) s] else [])"

definition alt :: "matcher list \<Rightarrow> matcher" where
  \<comment> \<open>\<open>(a|b|c)\<close>\<close>
  "alt ms s = concat (map (\<lambda>m. m s) ms)"

definition seq :: "matcher \<Rightarrow> matcher \<Rightarrow> matcher" where
  \<comment> \<open>concatenation\<close>
  "seq m1 m2 s = concat (map m2 (m1 s))"

definition opt :: "matcher \<Rightarrow> matcher" where
  \<comment> \<open>greedy \<open>x?\<close>\<close>
  "opt m s = m s @ [s]"

definition one_of :: "pystr \<Rightarrow> matcher" where
  \<comment> \<open>a character class \<open>[...]\<close>\<close>
  "one_of cs s = (case s of [] \<Rightarrow> [] | c # r \<Rightarrow> if c \<in> set cs then [r] else [])"

definition spaces :: matcher where
  \<comment> \<open>greedy \<open>\s*\<close>: the longest run of whitespace first\<close>
  "spaces s = map (\<lambda>n. drop n s) (rev [0 ..< Suc (length (takeWhile is_space s))])"

definition prefix_pattern_1 :: matcher where
  \<comment> \<open>\<open>(Answer|Response|Assistant|AI):\s*\<close>\<close>
  "prefix_pattern_1 =
     seq (alt [lit_ci (str ''Answer''), lit_ci (str ''Response''), lit_ci (str ''Assistant''),
               lit_ci (str ''AI'')])
    (seq (lit_ci (str '':'')) spaces)"

definition prefix_pattern_2 :: matcher where
  \<comment> \<open>\<open>(According to|Based on) (the )?(documents?|context|information)[,:]?\s*\<close>\<close>
  "prefix_pattern_2 =
     seq (alt [lit_ci (str ''According to''), lit_ci (str ''Based on'')])
    (seq (lit_ci (str '' ''))
    (seq (opt (lit_ci (str ''the '')))
    (seq (alt [seq (lit_ci (str ''document'')) (opt (lit_ci (str ''s''))),
               lit_ci (str ''context''), lit_ci (str ''information'')])
    (seq (opt (one_of (str '',:''))) spaces))))"

definition re_match :: "matcher \<Rightarrow> pystr \<Rightarrow> pystr option" where
  "re_match m s = (case m s of [] \<Rightarrow> None | r # _ \<Rightarrow> Some r)"

function re_sub_line_start :: "matcher \<Rightarrow> bool \<Rightarrow> pystr \<Rightarrow> pystr" where
  "re_sub_line_start m bol [] = []"
| "re_sub_line_start m bol (c # cs) =
     (case (if bol then re_match m (c # cs) else None) of
        Some r \<Rightarrow>
          if length r < length (c # cs)
          then re_sub_line_start m
                 (last (take (length (c # cs) - length r) (c # cs)) = 0x0A) r
          else c # re_sub_line_start m (c = 0x0A) cs
      | None \<Rightarrow> c # re_sub_line_start m (c = 0x0A) cs)"
  by pat_completeness auto
termination
  by (relation "measure (\<lambda>(m, bol, s). length s)") (auto split: if_splits)

definition re_sub :: "matcher \<Rightarrow> pystr \<Rightarrow> pystr" where
  \<comment> \<open>\<open>re.sub('^' + pattern, '', s, flags=re.IGNORECASE | re.MULTILINE)\<close>\<close>
  "re_sub m s = re_sub_line_start m True s"

section \<open>\<open>clean_response\<close>\<close>

fun unique_loop :: "pystr list \<Rightarrow> pystr set \<Rightarrow> pystr list \<Rightarrow> pystr list" where
  "unique_loop [] seen unique_lines = unique_lines"
| "unique_loop (line # rest) seen unique_lines =
     (let line_clean = lower (strip line)
      in if line_clean \<noteq> [] \<and> line_clean \<notin> seen \<and> length line_clean > 3
         then unique_loop rest (insert line_clean seen) (unique_lines @ [strip line])
         else unique_loop rest seen unique_lines)"

definition remove_question_echo :: "pystr \<Rightarrow> pystr \<Rightarrow> pystr" where
  \<comment> \<open>the inner test \<open>question_lower in answer_lower\<close> is the \<open>Some\<close> case of \<open>find\<close>\<close>
  "remove_question_echo answer original_question =
     (if contains (lower original_question) (take 150 (lower answer))
      then (case str_find (lower original_question) (lower answer) of
              Some idx \<Rightarrow> strip (drop (idx + length original_question) answer)
            | None \<Rightarrow> answer)
      else answer)"

definition cleaned_text :: "pystr \<Rightarrow> pystr \<Rightarrow> pystr" where
  "cleaned_text response original_question =
     (let answer = strip response;
          answer = remove_question_echo answer original_question;
          answer = re_sub prefix_pattern_1 answer;
          answer = re_sub prefix_pattern_2 answer;
          unique_lines = unique_loop (split_nl answer) {} []
      in strip (join_nl unique_lines))"

definition clean_response :: "pystr \<Rightarrow> pystr \<Rightarrow> pystr option" where
  "clean_response response original_question =
     (let answer = cleaned_text response original_question
      in if length answer < 15 \<or> lower answer = lower original_question
         then None else Some answer)"




text \<open>The shape of every text that \<open>clean_response\<close> lets through.\<close>

definition clean_lines :: "pystr list \<Rightarrow> bool" where
  "clean_lines us \<longleftrightarrow>
     us \<noteq> [] \<and> distinct (map lower us) \<and>
     (\<forall>u \<in> set us. strip u = u \<and> 3 < length (lower u) \<and> 0x0A \<notin> set u)"

section \<open>Ingestion: \<open>ingest.py\<close>\<close>

text \<open>
  File contents are byte strings, one \<^typ>\<open>char\<close> per byte; paths and the other strings
  of \<open>ingest.py\<close> are only compared, cut at \<open>/\<close> and tested for an ASCII suffix, and are
  kept as byte strings too. The libraries that \<open>ingest.py\<close> calls (hashlib, the three
  document loaders, the text splitter, the vector store) are parameters of the model; a
  call that raises returns \<open>Inl\<close>. The progress lines that \<open>ingest.py\<close> prints are left
  out.
\<close>

type_synonym bytes = string
type_synonym path = string

record document =
  page_content :: string
  metadata :: "(string \<times> string) list"

datatype error =
    File_error path  \<comment> \<open>\<open>open(path, "rb")\<close> raised\<close>
  | Loader_error string  \<comment> \<open>\<open>loader.load()\<close> raised, with the exception's text\<close>
  | Index_error string  \<comment> \<open>the vector store raised, with the exception's text\<close>
  | Empty_batch_error  \<comment> \<open>the vector store raised on an empty list of chunks\<close>

record 'h hasher =
  h_new :: 'h
  h_update :: "'h \<Rightarrow> bytes \<Rightarrow> 'h"
  h_hexdigest :: "'h \<Rightarrow> string"

record ('h, 'db) env =
  sha256 :: "'h hasher"
  markdown_loader :: "path \<Rightarrow> bytes \<Rightarrow> string + document list"
  text_loader :: "path \<Rightarrow> bytes \<Rightarrow> string + document list"
  pdf_loader :: "path \<Rightarrow> bytes \<Rightarrow> string + document list"
  text_splitter :: "document list \<Rightarrow> document list"
  add_documents :: "'db \<Rightarrow> document list \<Rightarrow> string + 'db"
  from_documents :: "document list \<Rightarrow> string + 'db"
  store_after_failure :: "'db option \<Rightarrow> document list \<Rightarrow> 'db option"

text \<open>
  The part of the file system that \<open>ingest()\<close> touches. \<open>docs_dir\<close> is \<open>None\<close> when
  \<open>DOCS_DIR\<close> does not exist; otherwise it lists the files below it that \<open>glob\<close> visits,
  in \<open>glob\<close>'s order, each with its bytes (\<open>None\<close> for a file that cannot be opened).
  \<open>hash_file\<close> is the content of \<open>ingested_files.json\<close>, a dictionary in insertion order
  (looked up with \<^const>\<open>map_of\<close>, written with \<^const>\<open>AList.update\<close>), and \<open>db_dir\<close> the
  vector store persisted in \<open>DB_DIR\<close>; both are \<open>None\<close> when absent.
\<close>

record 'db world =
  docs_dir :: "(path \<times> bytes option) list option"
  hash_file :: "(path \<times> string) list option"
  db_dir :: "'db option"

definition DOCS_DIR :: string where
  "DOCS_DIR = ''docs''"

function read_blocks :: "nat \<Rightarrow> bytes \<Rightarrow> bytes list" where
  \<comment> \<open>\<open>iter(lambda: f.read(n), b"")\<close>\<close>
  "read_blocks n f =
     (let chunk = take n f in if chunk = [] then [] else chunk # read_blocks n (drop n f))"
  by pat_completeness auto
termination
  by (relation "measure (\<lambda>(n, f). length f)") auto

definition compute_file_hash :: "'h hasher \<Rightarrow> (path \<times> bytes option) list \<Rightarrow> path \<Rightarrow> error + string"
  where
  "compute_file_hash hasher files path =
     (case map_of files path of
        Some (Some content) \<Rightarrow>
          Inr (h_hexdigest hasher
                 (foldl (h_update hasher) (h_new hasher) (read_blocks 8192 content)))
      | _ \<Rightarrow> Inl (File_error path))"

definition load_ingested_hashes :: "'db world \<Rightarrow> (path \<times> string) list" where
  "load_ingested_hashes w = (case hash_file w of None \<Rightarrow> [] | Some hashes \<Rightarrow> hashes)"

definition save_ingested_hashes :: "(path \<times> string) list \<Rightarrow> 'db world \<Rightarrow> 'db world" where
  "save_ingested_hashes hashes w = w\<lparr>hash_file := Some hashes\<rparr>"

definition endswith :: "string \<Rightarrow> string \<Rightarrow> bool" where
  "endswith s suffix \<longleftrightarrow> length suffix \<le> length s \<and> drop (length s - length suffix) s = suffix"

definition glob_ext :: "(path \<times> bytes option) list \<Rightarrow> string \<Rightarrow> path list" where
  \<comment> \<open>\<open>glob.glob(os.path.join(DOCS_DIR, "**/*" + ext), recursive=True)\<close>\<close>
  "glob_ext files ext = filter (\<lambda>p. endswith p ext) (map fst files)"

definition file_paths :: "(path \<times> bytes option) list \<Rightarrow> path list" where
  "file_paths files = glob_ext files ''.md'' @ glob_ext files ''.txt'' @ glob_ext files ''.pdf''"

definition basename :: "path \<Rightarrow> string" where
  \<comment> \<open>\<open>os.path.basename\<close>\<close>
  "basename p = rev (takeWhile (\<lambda>c. c \<noteq> CHR ''/'') (rev p))"

definition load_file :: "('h, 'db) env \<Rightarrow> (path \<times> bytes option) list \<Rightarrow> path \<Rightarrow> error + document list"
  where
  "load_file E files file_path =
     (case map_of files file_path of
        Some (Some content) \<Rightarrow>
          (case (if endswith file_path ''.md'' then markdown_loader E file_path content
                 else if endswith file_path ''.txt'' then text_loader E file_path content
                 else pdf_loader E file_path content) of
             Inl msg \<Rightarrow> Inl (Loader_error msg)
           | Inr loaded_docs \<Rightarrow> Inr loaded_docs)
      | _ \<Rightarrow> Inl (File_error file_path))"

definition set_source :: "string \<Rightarrow> document \<Rightarrow> document" where
  \<comment> \<open>\<open>doc.metadata = doc.metadata or {}; doc.metadata["source"] = source_name\<close>\<close>
  "set_source source_name doc = doc\<lparr>metadata := AList.update ''source'' source_name (metadata doc)\<rparr>"

definition unchanged :: "(path \<times> string) list \<Rightarrow> path \<Rightarrow> string \<Rightarrow> bool" where
  \<comment> \<open>\<open>ingested_hashes.get(file_path) == file_hash\<close>\<close>
  "unchanged ingested_hashes file_path file_hash \<longleftrightarrow>
     map_of ingested_hashes file_path = Some file_hash"

fun load_loop ::
  "('h, 'db) env \<Rightarrow> (path \<times> bytes option) list \<Rightarrow> (path \<times> string) list \<Rightarrow>
   document list \<times> (path \<times> string) list \<Rightarrow> path list \<Rightarrow>
   error + document list \<times> (path \<times> string) list" where
  "load_loop E files ingested_hashes (documents, updated_hashes) [] =
     Inr (documents, updated_hashes)"
| "load_loop E files ingested_hashes (documents, updated_hashes) (file_path # rest) =
     (case compute_file_hash (sha256 E) files file_path of
        Inl e \<Rightarrow> Inl e
      | Inr file_hash \<Rightarrow>
          if unchanged ingested_hashes file_path file_hash
          then load_loop E files ingested_hashes (documents, updated_hashes) rest
          else (case load_file E files file_path of
                  Inl e \<Rightarrow> Inl e
                | Inr loaded_docs \<Rightarrow>
                    load_loop E files ingested_hashes
                      (documents @ map (set_source (basename file_path)) loaded_docs,
                       AList.update file_path file_hash updated_hashes) rest))"

definition load_new_or_changed_documents ::
  "('h, 'db) env \<Rightarrow> 'db world \<Rightarrow> error + document list \<times> (path \<times> string) list" where
  "load_new_or_changed_documents E w =
     (let ingested_hashes = load_ingested_hashes w;
          files = (case docs_dir w of None \<Rightarrow> [] | Some fs \<Rightarrow> fs)
      in load_loop E files ingested_hashes ([], ingested_hashes) (file_paths files))"

definition split_documents :: "('h, 'db) env \<Rightarrow> document list \<Rightarrow> document list" where
  "split_documents E documents = text_splitter E documents"

fun str_nat :: "nat \<Rightarrow> string" where
  \<comment> \<open>the decimal numeral that an f-string prints\<close>
  "str_nat n =
     (if n < 10 then [''0123456789'' ! n]
      else str_nat (n div 10) @ [''0123456789'' ! (n mod 10)])"

definition created_message :: string where
  "created_message = ''Created '' @ DOCS_DIR @ ''. Please upload documents.''"

definition no_change_message :: string where
  "no_change_message = ''No new or changed documents to ingest.''"

definition success_message :: "nat \<Rightarrow> nat \<Rightarrow> string" where
  "success_message n m =
     ''Success! Ingested '' @ str_nat n @ '' documents ('' @ str_nat m @ '' chunks).''"

text \<open>
  The two calls of the vector store. Chroma refuses an empty batch (a \<open>ValueError\<close> from
  its validation of the ids); on a batch with chunks the store of the environment
  answers. What \<open>DB_DIR\<close> holds after a call that raised is the environment's
  \<open>store_after_failure\<close>.
\<close>

definition chroma_add_documents :: "('h, 'db) env \<Rightarrow> 'db \<Rightarrow> document list \<Rightarrow> error + 'db" where
  \<comment> \<open>\<open>Chroma(persist_directory=DB_DIR, ...).add_documents(chunks)\<close>\<close>
  "chroma_add_documents E db chunks =
     (if chunks = [] then Inl Empty_batch_error
      else (case add_documents E db chunks of
              Inl msg \<Rightarrow> Inl (Index_error msg)
            | Inr db' \<Rightarrow> Inr db'))"

definition chroma_from_documents :: "('h, 'db) env \<Rightarrow> document list \<Rightarrow> error + 'db" where
  \<comment> \<open>\<open>Chroma.from_documents(documents=chunks, ...)\<close>\<close>
  "chroma_from_documents E chunks =
     (if chunks = [] then Inl Empty_batch_error
      else (case from_documents E chunks of
              Inl msg \<Rightarrow> Inl (Index_error msg)
            | Inr db' \<Rightarrow> Inr db'))"

definition store_chunks :: "('h, 'db) env \<Rightarrow> 'db option \<Rightarrow> document list \<Rightarrow> error + 'db" where
  \<comment> \<open>the branch on \<open>os.path.exists(DB_DIR)\<close>\<close>
  "store_chunks E db chunks =
     (case db of
        Some db \<Rightarrow> chroma_add_documents E db chunks
      | None \<Rightarrow> chroma_from_documents E chunks)"

definition ingest :: "('h, 'db) env \<Rightarrow> 'db world \<Rightarrow> (error + string) \<times> 'db world" where
  "ingest E w =
     (if docs_dir w = None then (Inr created_message, w\<lparr>docs_dir := Some []\<rparr>)
      else case load_new_or_changed_documents E w of
        Inl e \<Rightarrow> (Inl e, w)
      | Inr (documents, updated_hashes) \<Rightarrow>
          if documents = [] then (Inr no_change_message, w)
          else (let chunks = split_documents E documents
                in (case store_chunks E (db_dir w) chunks of
                      Inl e \<Rightarrow>
                        (Inl e, w\<lparr>db_dir := store_after_failure E (db_dir w) chunks\<rparr>)
                    | Inr db' \<Rightarrow>
                        (Inr (success_message (length documents) (length chunks)),
                         save_ingested_hashes updated_hashes (w\<lparr>db_dir := Some db'\<rparr>)))))"

text \<open>
  A small concrete environment for evaluating the model: the digest of a file is its
  content, a loader yields one document holding the file's text and raises on a file
  that starts with \<open>!\<close>, the splitter keeps every document as one chunk, the store is
  the list of its chunks and a call that raises leaves it as it was.
\<close>

definition example_env :: "(bytes, document list) env" where
  "example_env =
     \<lparr>sha256 = \<lparr>h_new = [], h_update = (@), h_hexdigest = id\<rparr>,
      markdown_loader = (\<lambda>p c. if take 1 c = ''!'' then Inl (''Error loading '' @ p)
                               else Inr [\<lparr>page_content = c, metadata = [(''source'', p)]\<rparr>]),
      text_loader = (\<lambda>p c. if take 1 c = ''!'' then Inl (''Error loading '' @ p)
                           else Inr [\<lparr>page_content = c, metadata = [(''source'', p)]\<rparr>]),
      pdf_loader = (\<lambda>p c. if take 1 c = ''!'' then Inl (''Error loading '' @ p)
                          else Inr [\<lparr>page_content = c, metadata = [(''source'', p)]\<rparr>]),
      text_splitter = id,
      add_documents = (\<lambda>db chunks. Inr (db @ chunks)),
      from_documents = Inr,
      store_after_failure = (\<lambda>db chunks. db)\<rparr>"

section \<open>Retrieval: \<open>retrieve_relevant_documents\<close>\<close>

text \<open>
  The vector store is its \<open>similarity_search_with_score\<close>, a function of the query, \<open>k\<close>
  and the allowed sources that returns scored documents or raises; \<open>None\<close> is the absent
  store. Scores are compared only, so they range over any linear order.
\<close>

type_synonym 's vector_store = "string \<Rightarrow> nat \<Rightarrow> string list \<Rightarrow> string + (document \<times> 's) list"

definition retrieve_relevant_documents ::
  "('s::linorder) vector_store option \<Rightarrow> string \<Rightarrow> string list \<Rightarrow> nat \<Rightarrow> 's \<Rightarrow> (document \<times> 's) list"
  where
  "retrieve_relevant_documents vector_store query selected_docs k threshold =
     (case vector_store of
        None \<Rightarrow> []
      | Some similarity_search_with_score \<Rightarrow>
          if selected_docs = [] then []
          else (case similarity_search_with_score query k selected_docs of
                  Inl e \<Rightarrow> []
                | Inr results \<Rightarrow> filter (\<lambda>(doc, score). score \<le> threshold) results))"

text \<open>A concrete store for evaluating the model: three scored chunks, nearest first.\<close>

definition example_store :: "real vector_store" where
  "example_store query k selected_docs =
     Inr (take k [(\<lparr>page_content = ''alpha'', metadata = [(''source'', ''a.md'')]\<rparr>, 1/2),
                  (\<lparr>page_content = ''beta'', metadata = [(''source'', ''a.md'')]\<rparr>, 6/5),
                  (\<lparr>page_content = ''gamma'', metadata = [(''source'', ''b.txt'')]\<rparr>, 17/10)])"

declare read_blocks.simps [simp del]

declare str_nat.simps [simp del]

section \<open>Properties of \<open>clean_response\<close>\<close>

lemma length_str [simp]: "length (str s) = length s"
  by (simp add: str_def)

lemma lower_Nil [simp]: "lower [] = []"
  by (simp add: lower_def)

lemma length_lower_char: "length (lower_char c) = (if c = 0x130 then 2 else 1)"
  by (simp add: lower_char_def)

lemma lower_from_Nil_iff: "lower_from b s = [] \<longleftrightarrow> s = []"
  by (cases s) (simp_all add: lower_char_def)

lemma lower_Nil_iff [simp]: "lower s = [] \<longleftrightarrow> s = []"
  by (simp add: lower_def lower_from_Nil_iff)

lemma length_lower_from_Cons:
  "length (lower_from b (c # cs)) =
     (if c = 0x130 then 2 else 1) +
     length (lower_from (if case_ignorable c then b else cased c) cs)"
  by (simp add: length_lower_char)

lemma length_lower_from_bounds:
  "length s \<le> length (lower_from b s) \<and> length (lower_from b s) \<le> 2 * length s"
proof (induction s arbitrary: b)
  case Nil
  show ?case by simp
next
  case (Cons c cs)
  define k :: nat where "k = (if c = 0x130 then 2 else 1)"
  define r where "r = lower_from (if case_ignorable c then b else cased c) cs"
  have e: "length (lower_from b (c # cs)) = k + length r"
    unfolding k_def r_def by (rule length_lower_from_Cons)
  have k: "1 \<le> k \<and> k \<le> 2" by (simp add: k_def)
  have ih: "length cs \<le> length r \<and> length r \<le> 2 * length cs"
    unfolding r_def by (rule Cons.IH)
  show ?case unfolding e using k ih by simp
qed

lemma length_lower_bounds: "length s \<le> length (lower s) \<and> length (lower s) \<le> 2 * length s"
  unfolding lower_def by (rule length_lower_from_bounds)

lemma length_lower_from_plain: "0x130 \<notin> set s \<Longrightarrow> length (lower_from b s) = length s"
proof (induction s arbitrary: b)
  case Nil
  show ?case by simp
next
  case (Cons c cs)
  define r where "r = lower_from (if case_ignorable c then b else cased c) cs"
  from Cons.prems have cs: "0x130 \<notin> set cs" and c: "c \<noteq> 0x130" by auto
  have e: "length (lower_from b (c # cs)) = 1 + length r"
    unfolding r_def using c by (simp only: length_lower_from_Cons if_False)
  have ih: "length r = length cs"
    unfolding r_def using cs by (rule Cons.IH)
  show ?case unfolding e ih by simp
qed

lemma length_lower_plain: "0x130 \<notin> set s \<Longrightarrow> length (lower s) = length s"
  unfolding lower_def by (rule length_lower_from_plain)

lemma rev_dropWhile_split: "rev (dropWhile P (rev xs)) @ rev (takeWhile P (rev xs)) = xs"
proof -
  have "rev (takeWhile P (rev xs) @ dropWhile P (rev xs)) = rev (rev xs)"
    by (simp only: takeWhile_dropWhile_id)
  then show ?thesis by (simp only: rev_append rev_rev_ident)
qed

lemma strip_prefix:
  "strip s @ rev (takeWhile is_space (rev (dropWhile is_space s))) = dropWhile is_space s"
  unfolding strip_def by (rule rev_dropWhile_split)

lemma strip_last:
  assumes "strip s \<noteq> []"
  shows "\<not> is_space (last (strip s))"
proof -
  let ?t = "dropWhile is_space (rev (dropWhile is_space s))"
  from assms have t: "?t \<noteq> []" by (simp add: strip_def)
  then have "\<not> is_space (hd ?t)" by (rule hd_dropWhile)
  then show ?thesis using t by (simp add: strip_def last_rev)
qed

lemma strip_hd:
  assumes "strip s \<noteq> []"
  shows "\<not> is_space (hd (strip s))"
proof -
  let ?d = "dropWhile is_space s"
  define e where "e = rev (takeWhile is_space (rev ?d))"
  have p: "strip s @ e = ?d" unfolding e_def by (rule strip_prefix)
  with assms have d: "?d \<noteq> []" by (metis append_is_Nil_conv)
  then have "\<not> is_space (hd ?d)" by (rule hd_dropWhile)
  moreover have "hd ?d = hd (strip s)" using assms p by (metis hd_append2)
  ultimately show ?thesis by simp
qed

lemma strip_fixed:
  assumes "s \<noteq> []" "\<not> is_space (hd s)" "\<not> is_space (last s)"
  shows "strip s = s"
proof -
  from assms have 1: "dropWhile is_space s = s" by (cases s) auto
  from assms have "dropWhile is_space (rev s) = rev s"
    by (cases "rev s") (auto simp: last_rev [symmetric] hd_rev)
  with 1 show ?thesis by (simp add: strip_def)
qed

lemma strip_Nil [simp]: "strip [] = []"
  by (simp add: strip_def)

lemma strip_idem [simp]: "strip (strip s) = strip s"
proof (cases "strip s = []")
  case True
  then show ?thesis by simp
next
  case False
  then show ?thesis by (intro strip_fixed strip_hd strip_last)
qed

lemma set_strip: "set (strip s) \<subseteq> set s"
proof -
  have "set (strip s) \<subseteq> set (dropWhile is_space s)"
    using strip_prefix [of s] by (metis set_append Un_upper1)
  also have "\<dots> \<subseteq> set s" by (auto dest: set_dropWhileD)
  finally show ?thesis .
qed


lemma split_nl_not_Nil [simp]: "split_nl s \<noteq> []"
  by (induction s) (auto split: list.splits)

lemma split_nl_no_newline: "l \<in> set (split_nl s) \<Longrightarrow> 0x0A \<notin> set l"
  by (induction s arbitrary: l) (auto split: list.splits if_splits)

lemma split_nl_line: "0x0A \<notin> set l \<Longrightarrow> split_nl l = [l]"
  by (induction l) auto

lemma split_nl_append: "0x0A \<notin> set l \<Longrightarrow> split_nl (l @ 0x0A # r) = l # split_nl r"
  by (induction l) auto

lemma split_join_nl:
  "ls \<noteq> [] \<Longrightarrow> \<forall>l \<in> set ls. 0x0A \<notin> set l \<Longrightarrow> split_nl (join_nl ls) = ls"
  by (induction ls rule: join_nl.induct) (simp_all add: split_nl_line split_nl_append)

lemma hd_join_nl: "ls \<noteq> [] \<Longrightarrow> hd ls \<noteq> [] \<Longrightarrow> hd (join_nl ls) = hd (hd ls)"
  by (induction ls rule: join_nl.induct) simp_all

lemma join_nl_last_not_Nil: "ls \<noteq> [] \<Longrightarrow> last ls \<noteq> [] \<Longrightarrow> join_nl ls \<noteq> []"
  by (induction ls rule: join_nl.induct) simp_all

lemma last_join_nl: "ls \<noteq> [] \<Longrightarrow> last ls \<noteq> [] \<Longrightarrow> last (join_nl ls) = last (last ls)"
proof (induction ls rule: join_nl.induct)
  case (3 l v va)
  then have "join_nl (v # va) \<noteq> []" by (intro join_nl_last_not_Nil) simp_all
  with 3 show ?case by simp
qed simp_all

lemma join_nl_Nil_iff: "ls \<noteq> [] \<Longrightarrow> hd ls \<noteq> [] \<Longrightarrow> join_nl ls \<noteq> []"
  by (induction ls rule: join_nl.induct) simp_all

lemma stripped_ends:
  assumes "strip u = u" "u \<noteq> []"
  shows "\<not> is_space (hd u)" "\<not> is_space (last u)"
  using strip_hd [of u] strip_last [of u] assms by simp_all

lemma strip_join_nl:
  assumes "ls \<noteq> []" "\<forall>u \<in> set ls. strip u = u \<and> u \<noteq> []"
  shows "strip (join_nl ls) = join_nl ls"
proof (rule strip_fixed)
  from assms have h: "hd ls \<in> set ls" and l: "last ls \<in> set ls" by simp_all
  with assms have hn: "hd ls \<noteq> []" and ln: "last ls \<noteq> []" by blast+
  show "join_nl ls \<noteq> []" using assms(1) hn by (rule join_nl_Nil_iff)
  show "\<not> is_space (hd (join_nl ls))"
    using assms h hn by (simp add: hd_join_nl stripped_ends)
  show "\<not> is_space (last (join_nl ls))"
    using assms l ln by (simp add: last_join_nl stripped_ends)
qed

lemma unique_loop_acc: "unique_loop ls seen acc = acc @ unique_loop ls seen []"
proof (induction ls arbitrary: seen acc)
  case Nil
  show ?case by simp
next
  case (Cons l ls)
  show ?case
    using Cons.IH [of "insert (lower (strip l)) seen" "acc @ [strip l]"]
          Cons.IH [of "insert (lower (strip l)) seen" "[strip l]"]
          Cons.IH [of seen acc]
    by (simp add: Let_def)
qed

lemma unique_loop_Cons:
  "unique_loop (l # ls) seen [] =
     (if lower (strip l) \<notin> seen \<and> 3 < length (lower (strip l))
      then strip l # unique_loop ls (insert (lower (strip l)) seen) []
      else unique_loop ls seen [])"
  using unique_loop_acc [of ls "insert (lower (strip l)) seen" "[strip l]"]
  by (auto simp: Let_def)

declare unique_loop.simps(2) [simp del]

lemma unique_loop_elem:
  "u \<in> set (unique_loop ls seen []) \<Longrightarrow>
     (\<exists>l \<in> set ls. u = strip l) \<and> 3 < length (lower u) \<and> lower u \<notin> seen"
proof (induction ls arbitrary: seen)
  case Nil
  then show ?case by simp
next
  case (Cons l ls)
  then show ?case
    by (fastforce simp: unique_loop_Cons split: if_splits)
qed

lemma unique_loop_distinct: "distinct (map lower (unique_loop ls seen []))"
proof (induction ls arbitrary: seen)
  case Nil
  show ?case by simp
next
  case (Cons l ls)
  let ?k = "lower (strip l)"
  have "\<forall>u \<in> set (unique_loop ls (insert ?k seen) []). lower u \<noteq> ?k"
    using unique_loop_elem by blast
  then have "?k \<notin> lower ` set (unique_loop ls (insert ?k seen) [])"
    by (auto simp: image_iff)
  with Cons.IH show ?case by (simp add: unique_loop_Cons)
qed


lemma clean_lines_unique_loop:
  "unique_loop (split_nl a) {} [] \<noteq> [] \<Longrightarrow> clean_lines (unique_loop (split_nl a) {} [])"
  unfolding clean_lines_def
proof (intro conjI ballI)
  fix u assume u: "u \<in> set (unique_loop (split_nl a) {} [])"
  from unique_loop_elem [OF u] obtain l where l: "l \<in> set (split_nl a)" "u = strip l"
    and *: "3 < length (lower u)" by blast
  from l show "strip u = u" by simp
  from * show "3 < length (lower u)" .
  from l split_nl_no_newline [of l a] set_strip [of l] show "0x0A \<notin> set u" by blast
qed (simp_all add: unique_loop_distinct)


lemma cleaned_text_shape:
  assumes "cleaned_text response q \<noteq> []"
  shows "\<exists>us. clean_lines us \<and> cleaned_text response q = join_nl us"
proof -
  obtain a where r: "cleaned_text response q = strip (join_nl (unique_loop (split_nl a) {} []))"
    by (simp add: cleaned_text_def Let_def)
  let ?us = "unique_loop (split_nl a) {} []"
  from assms r have ne: "?us \<noteq> []" by auto
  then have c: "clean_lines ?us" by (rule clean_lines_unique_loop)
  then have "strip (join_nl ?us) = join_nl ?us"
    by (intro strip_join_nl) (auto simp: clean_lines_def)
  with r c show ?thesis by auto
qed

lemma clean_response_Some:
  "clean_response response q = Some r \<longleftrightarrow>
     r = cleaned_text response q \<and> 15 \<le> length r \<and> lower r \<noteq> lower q"
  by (auto simp: clean_response_def Let_def)

text \<open>
  Claim C10, as amended. Whenever \<open>clean_response\<close> returns a string, that string has at
  least 15 characters and differs from the original question even when case is ignored;
  no two of its lines agree after trimming and lowercasing, and every line keeps more
  than 3 characters after trimming and lowercasing. Trimmed but not lowercased, a line
  keeps more than 3 characters unless it contains U+0130, whose lowercase form is two
  characters long, and at least 2 characters in any case.
\<close>

theorem clean_response_result_shape:
  assumes "clean_response response original_question = Some r"
  shows "15 \<le> length r \<and>
         lower r \<noteq> lower original_question \<and>
         distinct (map (\<lambda>l. lower (strip l)) (split_nl r)) \<and>
         (\<forall>l \<in> set (split_nl r).
            3 < length (lower (strip l)) \<and> 2 \<le> length (strip l) \<and>
            (0x130 \<notin> set l \<longrightarrow> 3 < length (strip l)))"
proof (intro conjI)
  note assms [THEN clean_response_Some [THEN iffD1]]
  then have r: "r = cleaned_text response original_question"
    and len: "15 \<le> length r" and neq: "lower r \<noteq> lower original_question"
    by (rule conjunct1, rule conjunct2 [THEN conjunct1], rule conjunct2 [THEN conjunct2])
  from len r have "cleaned_text response original_question \<noteq> []" by auto
  from cleaned_text_shape [OF this] r obtain us where us: "clean_lines us" "r = join_nl us"
    by auto
  then have sp: "split_nl r = us" by (simp add: clean_lines_def split_join_nl)
  have m: "map (\<lambda>l. lower (strip l)) us = map lower us"
    using us(1) by (simp add: clean_lines_def)
  show "15 \<le> length r" by (rule len)
  show "lower r \<noteq> lower original_question" by (rule neq)
  show "distinct (map (\<lambda>l. lower (strip l)) (split_nl r))"
    using us(1) by (simp add: sp m) (simp add: clean_lines_def)
  show "\<forall>l \<in> set (split_nl r).
          3 < length (lower (strip l)) \<and> 2 \<le> length (strip l) \<and>
          (0x130 \<notin> set l \<longrightarrow> 3 < length (strip l))"
  proof
    fix l assume "l \<in> set (split_nl r)"
    with us(1) sp have s: "strip l = l" and l: "3 < length (lower l)"
      by (simp_all add: clean_lines_def)
    from l length_lower_bounds [of l] have "2 \<le> length l" by simp
    moreover from l have "0x130 \<notin> set l \<longrightarrow> 3 < length l"
      by (auto simp: length_lower_plain)
    ultimately show "3 < length (lower (strip l)) \<and> 2 \<le> length (strip l) \<and>
          (0x130 \<notin> set l \<longrightarrow> 3 < length (strip l))"
      using s l by simp
  qed
qed

theorem clean_response_result_shape_witness:
  "clean_response
     (str ''Answer: The capital is Paris.\<newline>the capital is paris.\<newline>ok\<newline>It lies on the Seine.'')
     (str ''What is the capital?'') = Some (str ''The capital is Paris.\<newline>It lies on the Seine.'') \<and>
   15 \<le> length (str ''The capital is Paris.\<newline>It lies on the Seine.'') \<and>
   lower (str ''The capital is Paris.\<newline>It lies on the Seine.'') \<noteq>
     lower (str ''What is the capital?'') \<and>
   distinct (map (\<lambda>l. lower (strip l))
               (split_nl (str ''The capital is Paris.\<newline>It lies on the Seine.''))) \<and>
   list_all (\<lambda>l. 3 < length (lower (strip l)) \<and> 2 \<le> length (strip l) \<and>
                  (0x130 \<notin> set l \<longrightarrow> 3 < length (strip l)))
     (split_nl (str ''The capital is Paris.\<newline>It lies on the Seine.''))"
proof -
  have h: "clean_response
     (str ''Answer: The capital is Paris.\<newline>the capital is paris.\<newline>ok\<newline>It lies on the Seine.'')
     (str ''What is the capital?'') = Some (str ''The capital is Paris.\<newline>It lies on the Seine.'')"
    by code_simp
  note t = clean_response_result_shape [OF h]
  show ?thesis unfolding list_all_iff by (rule conjI [OF h t])
qed

text \<open>
  The test \<open>len(line_clean) > 3\<close> measures the lowercased line and the line that is kept
  is not lowercased: a line of U+0130 and two letters has 3 characters, its lowercase
  form has 4, and the line is returned.
\<close>

theorem clean_response_keeps_short_line:
  "clean_response ([0x130] @ str ''ab\<newline>The sky is blue today.'') (str ''why?'') =
     Some ([0x130] @ str ''ab\<newline>The sky is blue today.'') \<and>
   split_nl ([0x130] @ str ''ab\<newline>The sky is blue today.'') =
     [[0x130] @ str ''ab'', str ''The sky is blue today.''] \<and>
   length (strip ([0x130] @ str ''ab'')) = 3"
  by code_simp



lemma str_find_Nil [simp]: "str_find [] s = Some 0"
  by (cases s) simp_all














lemma unique_loop_Nil [simp]: "unique_loop [] seen [] = []"
  by simp












lemma clean_response_None_iff:
  "clean_response response original_question = None \<longleftrightarrow>
     length (cleaned_text response original_question) < 15 \<or>
     lower (cleaned_text response original_question) = lower original_question"
  by (simp add: clean_response_def Let_def)

lemma str_find_self [simp]: "str_find s s = Some 0"
  by (cases s) simp_all

lemma clean_response_echo_None:
  assumes "strip q = q" and "length (lower q) \<le> 150"
  shows "clean_response q q = None"
proof -
  from assms(2) have "take 150 (lower q) = lower q" by simp
  then have "remove_question_echo q q = []"
    by (simp add: remove_question_echo_def contains_def)
  with assms(1) have "cleaned_text q q = []"
    by (simp add: cleaned_text_def re_sub_def unique_loop.simps(2))
  then show ?thesis by (simp add: clean_response_None_iff)
qed

text \<open>
  Claim C5. \<open>clean_response\<close> returns \<open>None\<close> exactly when the text left after trimming,
  echo removal, prefix stripping and line deduplication is shorter than 15 characters
  or equals the question up to case, and a raw output equal to the question is meant to
  yield \<open>None\<close>. The first half holds by construction, and the second half holds for a
  question of at most 150 characters without surrounding whitespace. It fails for a
  question with surrounding whitespace: the answer is trimmed before the comparison, the
  question is not, so an echoed question that ends in a space comes back as the answer.
\<close>

theorem clean_response_question_echo_returned:
  "clean_response (str ''What is the capital of France? '') (str ''What is the capital of France? '')
     = Some (str ''What is the capital of France?'')"
  by code_simp

section \<open>Properties of ingestion\<close>

lemma read_blocks_Nil: "take n f = [] \<Longrightarrow> read_blocks n f = []"
  by (subst read_blocks.simps) (simp add: Let_def)

lemma read_blocks_Cons:
  "take n f \<noteq> [] \<Longrightarrow> read_blocks n f = take n f # read_blocks n (drop n f)"
  by (subst read_blocks.simps) (simp add: Let_def)

lemma read_blocks_concat: "0 < n \<Longrightarrow> concat (read_blocks n f) = f"
proof (induction n f rule: read_blocks.induct)
  case (1 n f)
  show ?case
  proof (cases "take n f = []")
    case True
    with "1.prems" have "f = []" by simp
    then show ?thesis by (simp add: read_blocks_Nil)
  next
    case False
    with 1 have "concat (read_blocks n (drop n f)) = drop n f" by simp
    with False show ?thesis by (simp add: read_blocks_Cons)
  qed
qed

lemma read_blocks_bounds: "b \<in> set (read_blocks n f) \<Longrightarrow> b \<noteq> [] \<and> length b \<le> n"
proof (induction n f rule: read_blocks.induct)
  case (1 n f)
  show ?case
  proof (cases "take n f = []")
    case True
    with "1.prems" show ?thesis by (simp add: read_blocks_Nil)
  next
    case False
    from "1.prems" False have "b = take n f \<or> b \<in> set (read_blocks n (drop n f))"
      by (simp add: read_blocks_Cons)
    with False "1.IH" show ?thesis by auto
  qed
qed

lemma compute_file_hash_content:
  "map_of files p = Some (Some content) \<Longrightarrow>
   compute_file_hash H files p =
     Inr (h_hexdigest H (foldl (h_update H) (h_new H) (read_blocks 8192 content)))"
  by (simp add: compute_file_hash_def)

lemma compute_file_hash_cong:
  "map_of files' p = map_of files p \<Longrightarrow> compute_file_hash H files' p = compute_file_hash H files p"
  by (simp add: compute_file_hash_def)

lemma load_file_cong:
  "map_of files' p = map_of files p \<Longrightarrow> load_file E files' p = load_file E files p"
  by (simp add: load_file_def)

lemma load_loop_hashes:
  "load_loop E files ing acc ps = Inr res \<Longrightarrow> p \<in> set ps \<Longrightarrow>
   \<exists>h. compute_file_hash (sha256 E) files p = Inr h"
proof (induction ps arbitrary: acc)
  case Nil
  then show ?case by simp
next
  case (Cons a ps)
  obtain docs upd where acc: "acc = (docs, upd)" by (cases acc)
  from Cons.prems(1) obtain h where h: "compute_file_hash (sha256 E) files a = Inr h"
    unfolding acc by (auto split: sum.splits)
  show ?case
  proof (cases "p = a")
    case True
    with h show ?thesis by blast
  next
    case False
    with Cons.prems(2) have p: "p \<in> set ps" by simp
    from Cons.prems(1) h obtain acc' where "load_loop E files ing acc' ps = Inr res"
      unfolding acc by (auto split: sum.splits if_splits)
    from Cons.IH [OF this p] show ?thesis .
  qed
qed

lemma load_loop_records:
  assumes "load_loop E files ing (docs, upd) ps = Inr (docs', upd')"
    and "\<forall>q h. compute_file_hash (sha256 E) files q = Inr h \<longrightarrow> map_of ing q = Some h
           \<longrightarrow> map_of upd q = Some h"
    and "compute_file_hash (sha256 E) files q = Inr h"
    and "q \<in> set ps \<or> map_of upd q = Some h"
  shows "map_of upd' q = Some h"
  using assms
proof (induction ps arbitrary: docs upd)
  case Nil
  then show ?case by simp
next
  case (Cons a ps)
  from Cons.prems(1) obtain ha where ha: "compute_file_hash (sha256 E) files a = Inr ha"
    by (auto split: sum.splits)
  show ?case
  proof (cases "unchanged ing a ha")
    case True
    with Cons.prems(1) ha have l: "load_loop E files ing (docs, upd) ps = Inr (docs', upd')"
      by simp
    from True ha Cons.prems(2) have "map_of upd a = Some ha" by (simp add: unchanged_def)
    with Cons.prems(3,4) ha have "q \<in> set ps \<or> map_of upd q = Some h" by auto
    from Cons.IH [OF l Cons.prems(2,3) this] show ?thesis .
  next
    case False
    with Cons.prems(1) ha obtain loaded where
      l: "load_loop E files ing (docs @ map (set_source (basename a)) loaded,
            AList.update a ha upd) ps = Inr (docs', upd')"
      by (auto split: sum.splits)
    have 2: "\<forall>q h. compute_file_hash (sha256 E) files q = Inr h \<longrightarrow> map_of ing q = Some h
           \<longrightarrow> map_of (AList.update a ha upd) q = Some h"
      using Cons.prems(2) ha by (auto simp: update_conv')
    have 4: "q \<in> set ps \<or> map_of (AList.update a ha upd) q = Some h"
      using Cons.prems(3,4) ha by (auto simp: update_conv')
    from Cons.IH [OF l 2 Cons.prems(3) 4] show ?thesis .
  qed
qed

lemma load_loop_skip_all:
  "\<forall>p \<in> set ps. \<exists>h. compute_file_hash (sha256 E) files p = Inr h \<and> unchanged ing p h \<Longrightarrow>
   load_loop E files ing (docs, upd) ps = Inr (docs, upd)"
  by (induction ps) auto

lemma load_loop_first_failure:
  assumes "compute_file_hash (sha256 E) files p = Inl e \<or>
         (\<exists>h. compute_file_hash (sha256 E) files p = Inr h \<and> \<not> unchanged ing p h \<and>
              load_file E files p = Inl e)"
  shows "\<forall>q \<in> set before. \<exists>h. compute_file_hash (sha256 E) files q = Inr h \<and>
           (unchanged ing q h \<or> (\<exists>docs. load_file E files q = Inr docs)) \<Longrightarrow>
         load_loop E files ing acc (before @ p # after) = Inl e"
proof (induction before arbitrary: acc)
  case Nil
  obtain docs upd where acc: "acc = (docs, upd)" by (cases acc)
  from assms show ?case unfolding acc by auto
next
  case (Cons a before)
  obtain docs upd where acc: "acc = (docs, upd)" by (cases acc)
  from Cons.prems obtain h where h: "compute_file_hash (sha256 E) files a = Inr h"
    and ok: "unchanged ing a h \<or> (\<exists>ds. load_file E files a = Inr ds)" by auto
  from Cons.prems have rest: "\<forall>q \<in> set before. \<exists>h. compute_file_hash (sha256 E) files q = Inr h \<and>
           (unchanged ing q h \<or> (\<exists>docs. load_file E files q = Inr docs))" by simp
  show ?case
  proof (cases "unchanged ing a h")
    case True
    with h Cons.IH [OF rest] show ?thesis unfolding acc by simp
  next
    case False
    with ok obtain ds where "load_file E files a = Inr ds" by blast
    with h False Cons.IH [OF rest] show ?thesis unfolding acc by simp
  qed
qed

lemma messages_distinct:
  "created_message \<noteq> no_change_message"
  "success_message n m \<noteq> created_message"
  "success_message n m \<noteq> no_change_message"
  by (simp_all add: created_message_def no_change_message_def success_message_def DOCS_DIR_def)

lemma foldl_append_concat: "foldl (@) a xs = a @ concat xs"
  by (induction xs arbitrary: a) simp_all

lemma example_hash:
  "compute_file_hash (sha256 example_env) files p =
     (case map_of files p of Some (Some c) \<Rightarrow> Inr c | _ \<Rightarrow> Inl (File_error p))"
  by (simp add: compute_file_hash_def example_env_def foldl_append_concat read_blocks_concat
           split: option.splits)

lemma example_loaders:
  "markdown_loader example_env p c =
     (if take 1 c = ''!'' then Inl (''Error loading '' @ p)
      else Inr [\<lparr>page_content = c, metadata = [(''source'', p)]\<rparr>])"
  "text_loader example_env p c =
     (if take 1 c = ''!'' then Inl (''Error loading '' @ p)
      else Inr [\<lparr>page_content = c, metadata = [(''source'', p)]\<rparr>])"
  "pdf_loader example_env p c =
     (if take 1 c = ''!'' then Inl (''Error loading '' @ p)
      else Inr [\<lparr>page_content = c, metadata = [(''source'', p)]\<rparr>])"
  "text_splitter example_env ds = ds"
  "add_documents example_env db ds = Inr (db @ ds)"
  "from_documents example_env ds = Inr ds"
  "store_after_failure example_env d ds = d"
  by (simp_all add: example_env_def)

lemmas ingest_eval =
  ingest_def load_new_or_changed_documents_def load_ingested_hashes_def
  save_ingested_hashes_def file_paths_def glob_ext_def endswith_def load_file_def
  set_source_def unchanged_def basename_def split_documents_def store_chunks_def
  chroma_add_documents_def chroma_from_documents_def
  success_message_def created_message_def no_change_message_def DOCS_DIR_def
  example_hash example_loaders Let_def

lemma ingest_Some:
  assumes "docs_dir w = Some files"
  shows "ingest E w =
     (case load_loop E files (load_ingested_hashes w) ([], load_ingested_hashes w) (file_paths files) of
        Inl e \<Rightarrow> (Inl e, w)
      | Inr (documents, updated_hashes) \<Rightarrow>
          if documents = [] then (Inr no_change_message, w)
          else (case store_chunks E (db_dir w) (split_documents E documents) of
                      Inl e \<Rightarrow>
                        (Inl e, w\<lparr>db_dir := store_after_failure E (db_dir w)
                                              (split_documents E documents)\<rparr>)
                    | Inr db' \<Rightarrow>
                        (Inr (success_message (length documents) (length (split_documents E documents))),
                         save_ingested_hashes updated_hashes (w\<lparr>db_dir := Some db'\<rparr>))))"
  using assms
  by (simp add: ingest_def load_new_or_changed_documents_def Let_def
           split: sum.splits prod.splits)


lemma load_loop_records_all:
  assumes "load_loop E files ing ([], ing) ps = Inr (documents, updated)" and "q \<in> set ps"
  shows "\<exists>h. compute_file_hash (sha256 E) files q = Inr h \<and> map_of updated q = Some h"
proof -
  from load_loop_hashes [OF assms] obtain h
    where h: "compute_file_hash (sha256 E) files q = Inr h" ..
  have "map_of updated q = Some h"
  proof (rule load_loop_records [OF assms(1) _ h])
    show "\<forall>q h. compute_file_hash (sha256 E) files q = Inr h \<longrightarrow> map_of ing q = Some h
            \<longrightarrow> map_of ing q = Some h" by simp
    show "q \<in> set ps \<or> map_of ing q = Some h" using assms(2) by simp
  qed
  with h show ?thesis by blast
qed




lemma load_ingested_hashes_cong:
  "hash_file w2 = hash_file w1 \<Longrightarrow> load_ingested_hashes w2 = load_ingested_hashes w1"
  by (simp add: load_ingested_hashes_def)

lemma docs_dir_saved: "docs_dir (save_ingested_hashes hashes (w\<lparr>db_dir := d\<rparr>)) = docs_dir w"
  by (simp add: save_ingested_hashes_def)

lemma ingest_all_unchanged:
  assumes "docs_dir w = Some files"
    and "\<forall>q \<in> set (file_paths files).
          \<exists>h. compute_file_hash (sha256 E) files q = Inr h \<and> unchanged (load_ingested_hashes w) q h"
  shows "ingest E w = (Inr no_change_message, w)"
proof -
  from assms(2)
  have "load_loop E files (load_ingested_hashes w) ([], load_ingested_hashes w) (file_paths files)
          = Inr ([], load_ingested_hashes w)"
    by (rule load_loop_skip_all)
  then show ?thesis by (simp add: ingest_Some [OF assms(1)])
qed

lemma str_nat_digit: "n < 10 \<Longrightarrow> str_nat n = [''0123456789'' ! n]"
  by (subst str_nat.simps) simp

lemma ex_run1:
  "ingest example_env
     \<lparr>docs_dir = Some [(''docs/a.md'', Some ''hello world''), (''docs/sub/b.txt'', Some ''bye'')],
      hash_file = None, db_dir = None\<rparr> =
   (Inr ''Success! Ingested 2 documents (2 chunks).'',
     \<lparr>docs_dir = Some [(''docs/a.md'', Some ''hello world''), (''docs/sub/b.txt'', Some ''bye'')],
      hash_file = Some [(''docs/a.md'', ''hello world''), (''docs/sub/b.txt'', ''bye'')],
      db_dir = Some [\<lparr>page_content = ''hello world'', metadata = [(''source'', ''a.md'')]\<rparr>,
                     \<lparr>page_content = ''bye'', metadata = [(''source'', ''b.txt'')]\<rparr>]\<rparr>)"
  by (simp add: ingest_eval str_nat_digit)



lemma store_chunks_Inr: "store_chunks E d chunks = Inr db' \<Longrightarrow> chunks \<noteq> []"
  by (auto simp: store_chunks_def chroma_add_documents_def chroma_from_documents_def
           split: option.splits if_splits)





lemma foldl_streaming:
  assumes "\<And>s a b. upd (upd s a) b = upd s (a @ b)" and "\<And>s. upd s [] = s"
  shows "foldl upd s blocks = upd s (concat blocks)"
  by (induction blocks arbitrary: s) (simp_all add: assms)

text \<open>
  Claim C3, as amended. The fingerprint of a file is the digest of its bytes alone: the
  hasher is fed the blocks of 8192 bytes that make up the whole content, so a hasher
  that does not depend on how its input is cut digests the content itself, and two files
  with the same bytes get the same fingerprint. Whether a run treats the file as
  unchanged is decided by that fingerprint and the manifest entry recorded under the
  file's own path: when the entry equals the fingerprint the loop skips the file, and
  otherwise it loads the file and stages the fingerprint under the path.
\<close>

theorem change_check_depends_on_path_entry_and_content:
  assumes "map_of files p = Some (Some content)"
  shows "(let h = h_hexdigest (sha256 E)
                    (foldl (h_update (sha256 E)) (h_new (sha256 E)) (read_blocks 8192 content))
          in concat (read_blocks 8192 content) = content \<and>
             list_all (\<lambda>block. block \<noteq> [] \<and> length block \<le> 8192) (read_blocks 8192 content) \<and>
             ((\<forall>s a b. h_update (sha256 E) (h_update (sha256 E) s a) b =
                          h_update (sha256 E) s (a @ b)) \<and>
              (\<forall>s. h_update (sha256 E) s [] = s) \<longrightarrow>
                h = h_hexdigest (sha256 E) (h_update (sha256 E) (h_new (sha256 E)) content)) \<and>
             compute_file_hash (sha256 E) files p = Inr h \<and>
             (\<forall>files' p'. map_of files' p' = Some (Some content) \<longrightarrow>
                            compute_file_hash (sha256 E) files' p' = Inr h) \<and>
             (\<forall>ing documents updated rest.
                load_loop E files ing (documents, updated) (p # rest) =
                  (if map_of ing p = Some h
                   then load_loop E files ing (documents, updated) rest
                   else (case load_file E files p of
                           Inl e \<Rightarrow> Inl e
                         | Inr loaded_docs \<Rightarrow>
                             load_loop E files ing
                               (documents @ map (set_source (basename p)) loaded_docs,
                                AList.update p h updated) rest))))"
proof -
  let ?H = "sha256 E"
  let ?h = "h_hexdigest ?H (foldl (h_update ?H) (h_new ?H) (read_blocks 8192 content))"
  have 1: "concat (read_blocks 8192 content) = content" by (simp add: read_blocks_concat)
  have 2: "list_all (\<lambda>block. block \<noteq> [] \<and> length block \<le> 8192) (read_blocks 8192 content)"
    unfolding list_all_iff using read_blocks_bounds by blast
  have 3: "(\<forall>s a b. h_update ?H (h_update ?H s a) b = h_update ?H s (a @ b)) \<and>
           (\<forall>s. h_update ?H s [] = s) \<longrightarrow>
             ?h = h_hexdigest ?H (h_update ?H (h_new ?H) content)"
  proof
    assume a: "(\<forall>s a b. h_update ?H (h_update ?H s a) b = h_update ?H s (a @ b)) \<and>
               (\<forall>s. h_update ?H s [] = s)"
    then have "foldl (h_update ?H) (h_new ?H) (read_blocks 8192 content) =
                 h_update ?H (h_new ?H) (concat (read_blocks 8192 content))"
      by (intro foldl_streaming) simp_all
    with 1 show "?h = h_hexdigest ?H (h_update ?H (h_new ?H) content)" by simp
  qed
  have 4: "compute_file_hash ?H files p = Inr ?h"
    using assms by (rule compute_file_hash_content)
  have 5: "\<forall>files' p'. map_of files' p' = Some (Some content) \<longrightarrow>
                          compute_file_hash ?H files' p' = Inr ?h"
    by (simp add: compute_file_hash_content)
  have 6: "\<forall>ing documents updated rest.
                load_loop E files ing (documents, updated) (p # rest) =
                  (if map_of ing p = Some ?h
                   then load_loop E files ing (documents, updated) rest
                   else (case load_file E files p of
                           Inl e \<Rightarrow> Inl e
                         | Inr loaded_docs \<Rightarrow>
                             load_loop E files ing
                               (documents @ map (set_source (basename p)) loaded_docs,
                                AList.update p ?h updated) rest))"
    by (simp add: 4 unchanged_def)
  from 1 2 3 4 5 6 show ?thesis unfolding Let_def by (intro conjI)
qed

theorem change_check_depends_on_path_entry_and_content_witness:
  "map_of [(''docs/a.txt'', Some ''hello'')] ''docs/a.txt'' = Some (Some ''hello'') \<and>
   compute_file_hash (sha256 example_env) [(''docs/a.txt'', Some ''hello'')] ''docs/a.txt'' =
     Inr ''hello'' \<and>
   compute_file_hash (sha256 example_env) [(''docs/copy/a.txt'', Some ''hello'')]
     ''docs/copy/a.txt'' = Inr ''hello'' \<and>
   load_loop example_env [(''docs/a.txt'', Some ''hello'')] [(''docs/a.txt'', ''hello'')]
     ([], [(''docs/a.txt'', ''hello'')]) [''docs/a.txt''] =
     Inr ([], [(''docs/a.txt'', ''hello'')]) \<and>
   load_loop example_env [(''docs/a.txt'', Some ''hello'')] [(''docs/a.txt'', ''old'')]
     ([], [(''docs/a.txt'', ''old'')]) [''docs/a.txt''] =
     Inr ([\<lparr>page_content = ''hello'', metadata = [(''source'', ''a.txt'')]\<rparr>],
          [(''docs/a.txt'', ''hello'')])"
proof -
  let ?files = "[(''docs/a.txt'', Some ''hello'')]"
  let ?h = "h_hexdigest (sha256 example_env)
              (foldl (h_update (sha256 example_env)) (h_new (sha256 example_env))
                 (read_blocks 8192 ''hello''))"
  have a: "map_of ?files ''docs/a.txt'' = Some (Some ''hello'')" by simp
  note t = change_check_depends_on_path_entry_and_content [OF a, of example_env, unfolded Let_def]
  have e: "?h = ''hello''"
    by (simp add: example_env_def foldl_append_concat read_blocks_concat)
  from t have 1: "compute_file_hash (sha256 example_env) ?files ''docs/a.txt'' = Inr ?h"
    by blast
  from t have "\<forall>files' p'. map_of files' p' = Some (Some ''hello'') \<longrightarrow>
                 compute_file_hash (sha256 example_env) files' p' = Inr ?h" by blast
  then have 2: "compute_file_hash (sha256 example_env) [(''docs/copy/a.txt'', Some ''hello'')]
                  ''docs/copy/a.txt'' = Inr ?h" by simp
  from t have l: "\<forall>ing documents updated rest.
                load_loop example_env ?files ing (documents, updated) (''docs/a.txt'' # rest) =
                  (if map_of ing ''docs/a.txt'' = Some ?h
                   then load_loop example_env ?files ing (documents, updated) rest
                   else (case load_file example_env ?files ''docs/a.txt'' of
                           Inl e \<Rightarrow> Inl e
                         | Inr loaded_docs \<Rightarrow>
                             load_loop example_env ?files ing
                               (documents @ map (set_source (basename ''docs/a.txt'')) loaded_docs,
                                AList.update ''docs/a.txt'' ?h updated) rest))" by blast
  have 3: "load_loop example_env ?files [(''docs/a.txt'', ''hello'')]
     ([], [(''docs/a.txt'', ''hello'')]) [''docs/a.txt''] = Inr ([], [(''docs/a.txt'', ''hello'')])"
    by (subst l [rule_format]) (simp add: e)
  have 4: "load_loop example_env ?files [(''docs/a.txt'', ''old'')]
     ([], [(''docs/a.txt'', ''old'')]) [''docs/a.txt''] =
     Inr ([\<lparr>page_content = ''hello'', metadata = [(''source'', ''a.txt'')]\<rparr>],
          [(''docs/a.txt'', ''hello'')])"
    by (subst l [rule_format])
       (simp add: e load_file_def endswith_def example_loaders set_source_def basename_def)
  show ?thesis
    by (rule conjI [OF a conjI [OF 1 [unfolded e] conjI [OF 2 [unfolded e] conjI [OF 3 4]]]])
qed

text \<open>
  The verdict does depend on the path: a copy of an ingested file under a new path has
  the same fingerprint, fails the change check and is ingested again.
\<close>

theorem copied_file_treated_as_new:
  "compute_file_hash (sha256 example_env)
     [(''docs/a.txt'', Some ''hello''), (''docs/copy/a.txt'', Some ''hello'')] ''docs/a.txt'' = Inr ''hello'' \<and>
   compute_file_hash (sha256 example_env)
     [(''docs/a.txt'', Some ''hello''), (''docs/copy/a.txt'', Some ''hello'')] ''docs/copy/a.txt'' = Inr ''hello'' \<and>
   unchanged [(''docs/a.txt'', ''hello'')] ''docs/a.txt'' ''hello'' \<and>
   \<not> unchanged [(''docs/a.txt'', ''hello'')] ''docs/copy/a.txt'' ''hello'' \<and>
   ingest example_env
     \<lparr>docs_dir = Some [(''docs/a.txt'', Some ''hello''), (''docs/copy/a.txt'', Some ''hello'')],
      hash_file = Some [(''docs/a.txt'', ''hello'')],
      db_dir = Some [\<lparr>page_content = ''hello'', metadata = [(''source'', ''a.txt'')]\<rparr>]\<rparr> =
   (Inr ''Success! Ingested 1 documents (1 chunks).'',
     \<lparr>docs_dir = Some [(''docs/a.txt'', Some ''hello''), (''docs/copy/a.txt'', Some ''hello'')],
      hash_file = Some [(''docs/a.txt'', ''hello''), (''docs/copy/a.txt'', ''hello'')],
      db_dir = Some [\<lparr>page_content = ''hello'', metadata = [(''source'', ''a.txt'')]\<rparr>,
                     \<lparr>page_content = ''hello'', metadata = [(''source'', ''a.txt'')]\<rparr>]\<rparr>)"
  by (simp add: ingest_eval str_nat_digit)

text \<open>
  Claim C4, as amended. When a file of the batch cannot be read, or is new or changed and
  its loader raises, while every file that the loop visits before it is hashed and, if
  not skipped, loaded, \<open>ingest\<close> raises the exception of that first failing file and the
  batch is aborted: the files after it are not processed (whatever they are, and whatever
  their content, the outcome is the same), nothing is added to the index and the manifest
  is left as it was, so no file of the batch, the failing one included, is recorded.
\<close>

theorem failed_load_aborts_ingest:
  assumes "docs_dir w = Some files" and "file_paths files = before @ p # after"
    and "\<forall>q \<in> set before. \<exists>h. compute_file_hash (sha256 E) files q = Inr h \<and>
           (unchanged (load_ingested_hashes w) q h \<or> (\<exists>docs. load_file E files q = Inr docs))"
    and "compute_file_hash (sha256 E) files p = Inl e \<or>
         (\<exists>h. compute_file_hash (sha256 E) files p = Inr h \<and>
              \<not> unchanged (load_ingested_hashes w) p h \<and> load_file E files p = Inl e)"
  shows "ingest E w = (Inl e, w) \<and>
         (\<forall>files2 after2 w2.
            docs_dir w2 = Some files2 \<and> hash_file w2 = hash_file w \<and>
            file_paths files2 = before @ p # after2 \<and>
            (\<forall>q \<in> set (p # before). map_of files2 q = map_of files q) \<longrightarrow>
            ingest E w2 = (Inl e, w2))"
proof -
  have main: "ingest E w2 = (Inl e, w2)"
    if d: "docs_dir w2 = Some files2" and m: "hash_file w2 = hash_file w"
      and f: "file_paths files2 = before @ p # after2"
      and c: "\<forall>q \<in> set (p # before). map_of files2 q = map_of files q"
    for files2 after2 w2
  proof -
    let ?ing = "load_ingested_hashes w2"
    have i: "?ing = load_ingested_hashes w" using m by (rule load_ingested_hashes_cong)
    from c have cp: "map_of files2 p = map_of files p" by simp
    have hp: "compute_file_hash (sha256 E) files2 p = compute_file_hash (sha256 E) files p"
      using cp by (rule compute_file_hash_cong)
    have lp: "load_file E files2 p = load_file E files p"
      using cp by (rule load_file_cong)
    have p: "compute_file_hash (sha256 E) files2 p = Inl e \<or>
         (\<exists>h. compute_file_hash (sha256 E) files2 p = Inr h \<and>
              \<not> unchanged ?ing p h \<and> load_file E files2 p = Inl e)"
      unfolding hp lp i by (rule assms(4))
    have b: "\<forall>q \<in> set before. \<exists>h. compute_file_hash (sha256 E) files2 q = Inr h \<and>
           (unchanged ?ing q h \<or> (\<exists>docs. load_file E files2 q = Inr docs))"
    proof
      fix q assume q: "q \<in> set before"
      with c have cq: "map_of files2 q = map_of files q" by simp
      have hq: "compute_file_hash (sha256 E) files2 q = compute_file_hash (sha256 E) files q"
        using cq by (rule compute_file_hash_cong)
      have lq: "load_file E files2 q = load_file E files q"
        using cq by (rule load_file_cong)
      from assms(3) q show "\<exists>h. compute_file_hash (sha256 E) files2 q = Inr h \<and>
           (unchanged ?ing q h \<or> (\<exists>docs. load_file E files2 q = Inr docs))"
        unfolding hq lq i by (rule bspec)
    qed
    have "load_loop E files2 ?ing ([], ?ing) (before @ p # after2) = Inl e"
      using p b by (rule load_loop_first_failure)
    then show ?thesis by (simp add: ingest_Some [OF d] f)
  qed
  have 1: "ingest E w = (Inl e, w)"
    by (rule main [OF assms(1) refl assms(2)]) simp
  have 2: "\<forall>files2 after2 w2.
            docs_dir w2 = Some files2 \<and> hash_file w2 = hash_file w \<and>
            file_paths files2 = before @ p # after2 \<and>
            (\<forall>q \<in> set (p # before). map_of files2 q = map_of files q) \<longrightarrow>
            ingest E w2 = (Inl e, w2)"
    using main by blast
  from 1 2 show ?thesis ..
qed

theorem failed_load_aborts_ingest_witness:
  "file_paths [(''docs/a.md'', Some ''hello world''), (''docs/b.txt'', Some ''!corrupt''),
               (''docs/c.txt'', Some ''!broken'')] =
     [''docs/a.md''] @ ''docs/b.txt'' # [''docs/c.txt''] \<and>
   load_file example_env
     [(''docs/a.md'', Some ''hello world''), (''docs/b.txt'', Some ''!corrupt''),
      (''docs/c.txt'', Some ''!broken'')] ''docs/b.txt'' =
     Inl (Loader_error ''Error loading docs/b.txt'') \<and>
   load_file example_env
     [(''docs/a.md'', Some ''hello world''), (''docs/b.txt'', Some ''!corrupt''),
      (''docs/c.txt'', Some ''!broken'')] ''docs/c.txt'' =
     Inl (Loader_error ''Error loading docs/c.txt'') \<and>
   ingest example_env
     \<lparr>docs_dir = Some [(''docs/a.md'', Some ''hello world''), (''docs/b.txt'', Some ''!corrupt''),
                       (''docs/c.txt'', Some ''!broken'')],
      hash_file = None, db_dir = None\<rparr> =
   (Inl (Loader_error ''Error loading docs/b.txt''),
     \<lparr>docs_dir = Some [(''docs/a.md'', Some ''hello world''), (''docs/b.txt'', Some ''!corrupt''),
                       (''docs/c.txt'', Some ''!broken'')],
      hash_file = None, db_dir = None\<rparr>) \<and>
   ingest example_env
     \<lparr>docs_dir = Some [(''docs/a.md'', Some ''hello world''), (''docs/b.txt'', Some ''!corrupt'')],
      hash_file = None, db_dir = None\<rparr> =
   (Inl (Loader_error ''Error loading docs/b.txt''),
     \<lparr>docs_dir = Some [(''docs/a.md'', Some ''hello world''), (''docs/b.txt'', Some ''!corrupt'')],
      hash_file = None, db_dir = None\<rparr>)"
proof -
  let ?files = "[(''docs/a.md'', Some ''hello world''), (''docs/b.txt'', Some ''!corrupt''),
                 (''docs/c.txt'', Some ''!broken'')]"
  let ?files2 = "[(''docs/a.md'', Some ''hello world''), (''docs/b.txt'', Some ''!corrupt'')]"
  let ?w = "\<lparr>docs_dir = Some ?files, hash_file = None, db_dir = (None :: document list option)\<rparr>"
  let ?w2 = "\<lparr>docs_dir = Some ?files2, hash_file = None, db_dir = (None :: document list option)\<rparr>"
  let ?e = "Loader_error ''Error loading docs/b.txt''"
  have a: "docs_dir ?w = Some ?files" by simp
  have b: "file_paths ?files = [''docs/a.md''] @ ''docs/b.txt'' # [''docs/c.txt'']"
    by (simp add: file_paths_def glob_ext_def endswith_def)
  have c: "\<forall>q \<in> set [''docs/a.md''].
             \<exists>h. compute_file_hash (sha256 example_env) ?files q = Inr h \<and>
                 (unchanged (load_ingested_hashes ?w) q h \<or>
                  (\<exists>docs. load_file example_env ?files q = Inr docs))"
    by (simp add: example_hash load_file_def endswith_def example_loaders)
  have lb: "load_file example_env ?files ''docs/b.txt'' = Inl ?e"
    by (simp add: load_file_def endswith_def example_loaders)
  have lc: "load_file example_env ?files ''docs/c.txt'' =
              Inl (Loader_error ''Error loading docs/c.txt'')"
    by (simp add: load_file_def endswith_def example_loaders)
  have d: "compute_file_hash (sha256 example_env) ?files ''docs/b.txt'' = Inl ?e \<or>
    (\<exists>h. compute_file_hash (sha256 example_env) ?files ''docs/b.txt'' = Inr h \<and>
         \<not> unchanged (load_ingested_hashes ?w) ''docs/b.txt'' h \<and>
         load_file example_env ?files ''docs/b.txt'' = Inl ?e)"
    by (simp add: example_hash lb unchanged_def load_ingested_hashes_def)
  note t = failed_load_aborts_ingest [OF a b c d]
  from t have 1: "ingest example_env ?w = (Inl ?e, ?w)" by (rule conjunct1)
  have f2: "file_paths ?files2 = [''docs/a.md''] @ ''docs/b.txt'' # []"
    by (simp add: file_paths_def glob_ext_def endswith_def)
  have "docs_dir ?w2 = Some ?files2 \<and> hash_file ?w2 = hash_file ?w \<and>
        file_paths ?files2 = [''docs/a.md''] @ ''docs/b.txt'' # [] \<and>
        (\<forall>q \<in> set (''docs/b.txt'' # [''docs/a.md'']). map_of ?files2 q = map_of ?files q)"
    using f2 by simp
  with t have 2: "ingest example_env ?w2 = (Inl ?e, ?w2)" by blast
  show ?thesis by (rule conjI [OF b conjI [OF lb conjI [OF lc conjI [OF 1 2]]]])
qed

text \<open>
  A corrupt first file aborts the batch: the readable second file, which a run without
  the corrupt one ingests, is neither indexed nor recorded.
\<close>

theorem corrupt_file_aborts_batch:
  "ingest example_env
     \<lparr>docs_dir = Some [(''docs/a.md'', Some ''!corrupt''), (''docs/b.txt'', Some ''bye'')],
      hash_file = None, db_dir = None\<rparr> =
   (Inl (Loader_error ''Error loading docs/a.md''),
     \<lparr>docs_dir = Some [(''docs/a.md'', Some ''!corrupt''), (''docs/b.txt'', Some ''bye'')],
      hash_file = None, db_dir = None\<rparr>) \<and>
   ingest example_env
     \<lparr>docs_dir = Some [(''docs/b.txt'', Some ''bye'')], hash_file = None, db_dir = None\<rparr> =
   (Inr ''Success! Ingested 1 documents (1 chunks).'',
     \<lparr>docs_dir = Some [(''docs/b.txt'', Some ''bye'')],
      hash_file = Some [(''docs/b.txt'', ''bye'')],
      db_dir = Some [\<lparr>page_content = ''bye'', metadata = [(''source'', ''b.txt'')]\<rparr>]\<rparr>)"
  by (simp add: ingest_eval str_nat_digit)

lemma ingest_created:
  "docs_dir w = None \<Longrightarrow> ingest E w = (Inr created_message, w\<lparr>docs_dir := Some []\<rparr>)"
  by (simp add: ingest_def)

text \<open>
  Claim C9, as amended. Whenever \<open>ingest\<close> returns (no file read, loader or index call
  raises), it returns exactly one of three summary strings, no two of them equal: the
  success summary with \<open>N\<close> the number of loaded documents and \<open>M\<close> the number of chunks,
  \<open>N \<ge> 1\<close> and \<open>M \<ge> 1\<close>, when at least one document of a new or changed file was loaded,
  and then the manifest saved by the run holds the fingerprint of every discovered file;
  the no-change summary, with the state left as it was, when no document was loaded, in
  particular when no file is new or changed; the created-directory summary when the
  documents directory did not exist.
\<close>

theorem ingest_summary:
  assumes "ingest E w = (Inr msg, w')"
  shows "created_message \<noteq> no_change_message \<and>
         (\<forall>n m. success_message n m \<noteq> created_message \<and>
                success_message n m \<noteq> no_change_message) \<and>
         ((docs_dir w = None \<and> msg = created_message \<and> w' = w\<lparr>docs_dir := Some []\<rparr>) \<or>
          (\<exists>files documents updated.
             docs_dir w = Some files \<and>
             load_new_or_changed_documents E w = Inr (documents, updated) \<and>
             ((documents = [] \<and> msg = no_change_message \<and> w' = w) \<or>
              (documents \<noteq> [] \<and>
               msg = success_message (length documents) (length (split_documents E documents)) \<and>
               1 \<le> length documents \<and> 1 \<le> length (split_documents E documents) \<and>
               (\<exists>p \<in> set (file_paths files). \<exists>h.
                  compute_file_hash (sha256 E) files p = Inr h \<and>
                  \<not> unchanged (load_ingested_hashes w) p h) \<and>
               hash_file w' = Some updated \<and> docs_dir w' = docs_dir w \<and>
               (\<forall>p \<in> set (file_paths files).
                  \<exists>h. compute_file_hash (sha256 E) files p = Inr h \<and>
                      map_of updated p = Some h))) \<and>
             ((\<forall>p \<in> set (file_paths files).
                 \<exists>h. compute_file_hash (sha256 E) files p = Inr h \<and>
                     unchanged (load_ingested_hashes w) p h) \<longrightarrow>
              msg = no_change_message \<and> w' = w)))"
proof -
  have dist: "created_message \<noteq> no_change_message \<and>
         (\<forall>n m. success_message n m \<noteq> created_message \<and>
                success_message n m \<noteq> no_change_message)"
    by (simp add: messages_distinct)
  have main: "(docs_dir w = None \<and> msg = created_message \<and> w' = w\<lparr>docs_dir := Some []\<rparr>) \<or>
          (\<exists>files documents updated.
             docs_dir w = Some files \<and>
             load_new_or_changed_documents E w = Inr (documents, updated) \<and>
             ((documents = [] \<and> msg = no_change_message \<and> w' = w) \<or>
              (documents \<noteq> [] \<and>
               msg = success_message (length documents) (length (split_documents E documents)) \<and>
               1 \<le> length documents \<and> 1 \<le> length (split_documents E documents) \<and>
               (\<exists>p \<in> set (file_paths files). \<exists>h.
                  compute_file_hash (sha256 E) files p = Inr h \<and>
                  \<not> unchanged (load_ingested_hashes w) p h) \<and>
               hash_file w' = Some updated \<and> docs_dir w' = docs_dir w \<and>
               (\<forall>p \<in> set (file_paths files).
                  \<exists>h. compute_file_hash (sha256 E) files p = Inr h \<and>
                      map_of updated p = Some h))) \<and>
             ((\<forall>p \<in> set (file_paths files).
                 \<exists>h. compute_file_hash (sha256 E) files p = Inr h \<and>
                     unchanged (load_ingested_hashes w) p h) \<longrightarrow>
              msg = no_change_message \<and> w' = w))"
  proof (cases "docs_dir w")
    case None
    with assms show ?thesis by (simp add: ingest_created)
  next
    case (Some files)
    let ?ing = "load_ingested_hashes w"
    let ?l = "load_loop E files ?ing ([], ?ing) (file_paths files)"
    let ?same = "\<forall>p \<in> set (file_paths files).
                 \<exists>h. compute_file_hash (sha256 E) files p = Inr h \<and> unchanged ?ing p h"
    note i = assms [unfolded ingest_Some [OF Some]]
    have ll: "load_new_or_changed_documents E w = ?l"
      using Some by (simp add: load_new_or_changed_documents_def Let_def)
    from i obtain documents updated where l: "?l = Inr (documents, updated)"
      by (cases ?l) auto
    have same: "?same \<longrightarrow> msg = no_change_message \<and> w' = w"
    proof
      assume ?same
      with Some have "ingest E w = (Inr no_change_message, w)" by (rule ingest_all_unchanged)
      with assms show "msg = no_change_message \<and> w' = w" by simp
    qed
    have hashed: "\<forall>p \<in> set (file_paths files).
            \<exists>h. compute_file_hash (sha256 E) files p = Inr h \<and> map_of updated p = Some h"
      using load_loop_records_all [OF l] by blast
    show ?thesis
    proof (cases "documents = []")
      case True
      with i l have "msg = no_change_message \<and> w' = w" by auto
      with Some ll l True same show ?thesis by simp
    next
      case False
      let ?chunks = "split_documents E documents"
      let ?d = "store_chunks E (db_dir w) ?chunks"
      from i l False obtain db' where d: "?d = Inr db'" by (cases ?d) simp_all
      with i l False have
        m: "msg = success_message (length documents) (length ?chunks)"
        and w': "w' = save_ingested_hashes updated (w\<lparr>db_dir := Some db'\<rparr>)" by simp_all
      from w' have h: "hash_file w' = Some updated" by (simp add: save_ingested_hashes_def)
      from w' have dd: "docs_dir w' = docs_dir w" by (simp add: docs_dir_saved)
      from d have "?chunks \<noteq> []" by (rule store_chunks_Inr)
      then have c1: "1 \<le> length ?chunks" by (cases ?chunks) simp_all
      from False have n1: "1 \<le> length documents" by (cases documents) simp_all
      have new: "\<exists>p \<in> set (file_paths files). \<exists>h.
                  compute_file_hash (sha256 E) files p = Inr h \<and> \<not> unchanged ?ing p h"
      proof (rule ccontr)
        assume n: "\<not> (\<exists>p \<in> set (file_paths files). \<exists>h.
                  compute_file_hash (sha256 E) files p = Inr h \<and> \<not> unchanged ?ing p h)"
        have ?same
        proof
          fix p assume p: "p \<in> set (file_paths files)"
          with hashed obtain h where hp: "compute_file_hash (sha256 E) files p = Inr h" by blast
          with n p have "unchanged ?ing p h" by blast
          with hp show "\<exists>h. compute_file_hash (sha256 E) files p = Inr h \<and> unchanged ?ing p h"
            by blast
        qed
        then have "?l = Inr ([], ?ing)" by (rule load_loop_skip_all)
        with l False show False by simp
      qed
      from Some ll l False m n1 c1 new h dd hashed same show ?thesis by simp
    qed
  qed
  from dist main show ?thesis by simp
qed

theorem ingest_summary_witness:
  "ingest example_env
     \<lparr>docs_dir = Some [(''docs/a.md'', Some ''hello world''), (''docs/sub/b.txt'', Some ''bye'')],
      hash_file = None, db_dir = None\<rparr> =
   (Inr ''Success! Ingested 2 documents (2 chunks).'',
     \<lparr>docs_dir = Some [(''docs/a.md'', Some ''hello world''), (''docs/sub/b.txt'', Some ''bye'')],
      hash_file = Some [(''docs/a.md'', ''hello world''), (''docs/sub/b.txt'', ''bye'')],
      db_dir = Some [\<lparr>page_content = ''hello world'', metadata = [(''source'', ''a.md'')]\<rparr>,
                     \<lparr>page_content = ''bye'', metadata = [(''source'', ''b.txt'')]\<rparr>]\<rparr>) \<and>
   (\<exists>documents.
      ''Success! Ingested 2 documents (2 chunks).'' =
        success_message (length documents) (length (split_documents example_env documents)) \<and>
      1 \<le> length documents \<and> 1 \<le> length (split_documents example_env documents) \<and>
      list_all (\<lambda>p. \<exists>h. compute_file_hash (sha256 example_env)
                          [(''docs/a.md'', Some ''hello world''), (''docs/sub/b.txt'', Some ''bye'')] p = Inr h \<and>
                        map_of [(''docs/a.md'', ''hello world''), (''docs/sub/b.txt'', ''bye'')] p = Some h)
        (file_paths [(''docs/a.md'', Some ''hello world''), (''docs/sub/b.txt'', Some ''bye'')]))"
proof -
  let ?files = "[(''docs/a.md'', Some ''hello world''), (''docs/sub/b.txt'', Some ''bye'')]"
  let ?w = "\<lparr>docs_dir = Some ?files, hash_file = None, db_dir = (None :: document list option)\<rparr>"
  let ?msg = "''Success! Ingested 2 documents (2 chunks).''"
  note t = ingest_summary [OF ex_run1]
  have n: "docs_dir ?w \<noteq> None" by simp
  have nc: "?msg \<noteq> no_change_message" by (simp add: no_change_message_def)
  from t n nc obtain files documents updated where
    f: "docs_dir ?w = Some files"
    and m: "?msg = success_message (length documents) (length (split_documents example_env documents))"
    and n1: "1 \<le> length documents"
    and c1: "1 \<le> length (split_documents example_env documents)"
    and u: "Some [(''docs/a.md'', ''hello world''), (''docs/sub/b.txt'', ''bye'')] = Some updated"
    and r: "\<forall>p \<in> set (file_paths files).
         \<exists>h. compute_file_hash (sha256 example_env) files p = Inr h \<and> map_of updated p = Some h"
    by auto
  from f have f': "files = ?files" by simp
  from u have u': "updated = [(''docs/a.md'', ''hello world''), (''docs/sub/b.txt'', ''bye'')]"
    by simp
  from r have "list_all (\<lambda>p. \<exists>h. compute_file_hash (sha256 example_env) ?files p = Inr h \<and>
                        map_of [(''docs/a.md'', ''hello world''), (''docs/sub/b.txt'', ''bye'')] p = Some h)
        (file_paths ?files)"
    unfolding list_all_iff f' u' .
  with m n1 c1 have "\<exists>documents.
      ?msg = success_message (length documents) (length (split_documents example_env documents)) \<and>
      1 \<le> length documents \<and> 1 \<le> length (split_documents example_env documents) \<and>
      list_all (\<lambda>p. \<exists>h. compute_file_hash (sha256 example_env) ?files p = Inr h \<and>
                        map_of [(''docs/a.md'', ''hello world''), (''docs/sub/b.txt'', ''bye'')] p = Some h)
        (file_paths ?files)"
    by blast
  with ex_run1 show ?thesis by (rule conjI)
qed

text \<open>A run over a directory with an unreadable file returns no summary at all.\<close>

theorem ingest_raises_without_summary:
  "fst (ingest example_env
     \<lparr>docs_dir = Some [(''docs/a.md'', None)], hash_file = None, db_dir = None\<rparr>) =
   Inl (File_error ''docs/a.md'')"
  by (simp add: ingest_eval)

section \<open>Properties of retrieval\<close>

text \<open>
  Claim C2. Given a store whose query for \<open>k\<close> nearest chunks returns at most \<open>k\<close> pairs,
  \<open>retrieve_relevant_documents\<close> returns at most \<open>k\<close> pairs, none of them with a score
  strictly above the threshold; when the store answers, the result is the answer filtered
  by \<open>score \<le> threshold\<close>, in the store's order.
\<close>

theorem retrieve_within_threshold_and_k:
  assumes "\<forall>search results. vector_store = Some search \<longrightarrow>
             search query k selected_docs = Inr results \<longrightarrow> length results \<le> k"
  shows "length (retrieve_relevant_documents vector_store query selected_docs k threshold) \<le> k \<and>
         (\<forall>(doc, score) \<in> set (retrieve_relevant_documents vector_store query selected_docs k threshold).
            \<not> threshold < score) \<and>
         (\<forall>search results. vector_store = Some search \<longrightarrow> selected_docs \<noteq> [] \<longrightarrow>
            search query k selected_docs = Inr results \<longrightarrow>
            retrieve_relevant_documents vector_store query selected_docs k threshold =
              filter (\<lambda>(doc, score). score \<le> threshold) results)"
proof (intro conjI)
  let ?r = "retrieve_relevant_documents vector_store query selected_docs k threshold"
  show "length ?r \<le> k"
  proof (cases vector_store)
    case None
    then show ?thesis by (simp add: retrieve_relevant_documents_def)
  next
    case (Some search)
    show ?thesis
    proof (cases "search query k selected_docs")
      case (Inl e)
      with Some show ?thesis by (simp add: retrieve_relevant_documents_def)
    next
      case (Inr results)
      with Some assms have "length results \<le> k" by blast
      moreover have "length (filter (\<lambda>(doc, score). score \<le> threshold) results) \<le> length results"
        by (rule length_filter_le)
      ultimately have "length (filter (\<lambda>(doc, score). score \<le> threshold) results) \<le> k"
        by (rule le_trans [rotated])
      with Some Inr show ?thesis by (simp add: retrieve_relevant_documents_def)
    qed
  qed
  show "\<forall>(doc, score) \<in> set ?r. \<not> threshold < score"
    by (auto simp: retrieve_relevant_documents_def split: option.splits sum.splits if_splits)
  show "\<forall>search results. vector_store = Some search \<longrightarrow> selected_docs \<noteq> [] \<longrightarrow>
            search query k selected_docs = Inr results \<longrightarrow>
            ?r = filter (\<lambda>(doc, score). score \<le> threshold) results"
    by (simp add: retrieve_relevant_documents_def)
qed

theorem retrieve_within_threshold_and_k_witness:
  "length (retrieve_relevant_documents (Some example_store) ''What is X?'' [''a.md'', ''b.txt''] 2 1) \<le> 2 \<and>
   list_all (\<lambda>(doc, score). \<not> 1 < score)
     (retrieve_relevant_documents (Some example_store) ''What is X?'' [''a.md'', ''b.txt''] 2 1) \<and>
   retrieve_relevant_documents (Some example_store) ''What is X?'' [''a.md'', ''b.txt''] 2 1 =
     [(\<lparr>page_content = ''alpha'', metadata = [(''source'', ''a.md'')]\<rparr>, 1/2)]"
proof -
  have h: "\<forall>search results. Some example_store = Some search \<longrightarrow>
      search ''What is X?'' 2 [''a.md'', ''b.txt''] = Inr results \<longrightarrow> length results \<le> 2"
    by (auto simp: example_store_def)
  note t = retrieve_within_threshold_and_k [OF h, of 1]
  have r: "retrieve_relevant_documents (Some example_store) ''What is X?'' [''a.md'', ''b.txt''] 2 1 =
     [(\<lparr>page_content = ''alpha'', metadata = [(''source'', ''a.md'')]\<rparr>, 1/2)]"
    by (simp add: retrieve_relevant_documents_def example_store_def)
  from t have "length (retrieve_relevant_documents (Some example_store) ''What is X?''
                 [''a.md'', ''b.txt''] 2 1) \<le> 2"
    and "list_all (\<lambda>(doc, score). \<not> 1 < score)
           (retrieve_relevant_documents (Some example_store) ''What is X?'' [''a.md'', ''b.txt''] 2 1)"
    unfolding list_all_iff by (rule conjunct1, rule conjunct2 [THEN conjunct1])
  with r show ?thesis by (intro conjI)
qed

end
